theory Spec2Isabelle
  imports Complex_Main "HOL-Library.Word"
begin

section \<open>The radar data logger (\<open>acc_service_data_logger.c\<close>)\<close>

text \<open>
  The program is a command-line front end of an external radar service library. This theory
  embeds its option handling, its three configuration builders, its three \<open>execute_*\<close>
  functions and \<open>main\<close>. Everything the program calls but does not define (the service
  library, the C library, the operating system) is a parameter of the model: the record
  \<open>provider\<close> fixes what each external call answers, and every external call the program
  makes is recorded, in order, in a trace of \<open>event\<close>s.
\<close>

subsection \<open>Data\<close>

datatype service_type_t = INVALID_SERVICE | POWER_BIN | ENVELOPE | IQ

datatype acc_log_level_t = ACC_LOG_LEVEL_ERROR | ACC_LOG_LEVEL_VERBOSE

datatype exit_status = EXIT_SUCCESS | EXIT_FAILURE

text \<open>
  \<open>input_t\<close>. The C \<open>float\<close> fields are modelled as reals (the program only stores, compares
  and subtracts them), C \<open>int\<close> values as integers, \<open>uint16_t\<close> and \<open>uint32_t\<close> as words, and
  the \<open>char *\<close> as an optional string, \<open>None\<close> for \<open>NULL\<close>. Over the reals the default
  \<open>0.07f\<close> is \<open>7 / 100\<close> and the difference \<open>end_m - start_m\<close> is exact, where the C values
  are rounded to single precision; these numbers only travel to the setters of the service
  library, and no property below depends on them.
\<close>

record input_t =
  service_type :: service_type_t
  update_count :: "16 word"
  wait_for_interrupt :: bool
  start_m :: real
  end_m :: real
  frequency :: real
  n_bins :: int
  gain :: real
  service_profile :: "32 word"
  running_avg :: real
  sensor :: int
  log_level :: acc_log_level_t
  file_path :: "string option"

definition DEFAULT_UPDATE_COUNT :: "16 word" where "DEFAULT_UPDATE_COUNT = 0"
definition DEFAULT_WAIT_FOR_INTERRUPT :: bool where "DEFAULT_WAIT_FOR_INTERRUPT = True"
definition DEFAULT_RANGE_START_M :: real where "DEFAULT_RANGE_START_M = 7 / 100"
definition DEFAULT_RANGE_END_M :: real where "DEFAULT_RANGE_END_M = 1 / 2"
definition DEFAULT_N_BINS :: int where "DEFAULT_N_BINS = 10"
definition DEFAULT_SERVICE_PROFILE :: "32 word" where "DEFAULT_SERVICE_PROFILE = 0"
definition DEFAULT_GAIN :: real where "DEFAULT_GAIN = - 1"
definition DEFAULT_FREQUENCY :: real where "DEFAULT_FREQUENCY = 10"
definition DEFAULT_RUNNING_AVG :: real where "DEFAULT_RUNNING_AVG = - 1"
definition DEFAULT_SENSOR :: int where "DEFAULT_SENSOR = 1"
definition DEFAULT_LOG_LEVEL :: acc_log_level_t where "DEFAULT_LOG_LEVEL = ACC_LOG_LEVEL_ERROR"

definition initialize_input :: input_t where
  "initialize_input =
     \<lparr> service_type = INVALID_SERVICE,
       update_count = DEFAULT_UPDATE_COUNT,
       wait_for_interrupt = DEFAULT_WAIT_FOR_INTERRUPT,
       start_m = DEFAULT_RANGE_START_M,
       end_m = DEFAULT_RANGE_END_M,
       frequency = DEFAULT_FREQUENCY,
       n_bins = DEFAULT_N_BINS,
       gain = DEFAULT_GAIN,
       service_profile = DEFAULT_SERVICE_PROFILE,
       running_avg = DEFAULT_RUNNING_AVG,
       sensor = DEFAULT_SENSOR,
       log_level = DEFAULT_LOG_LEVEL,
       file_path = None \<rparr>"

text \<open>
  The setter calls of the service library that the configuration builders make. A
  configuration object is opaque to the program; the model identifies it with the list of
  settings applied to it, and a configuration pointer with an optional such list
  (\<open>None\<close> for \<open>NULL\<close>).
\<close>

datatype setting =
    Profile_set "32 word"
  | Requested_bin_count_set int
  | Running_average_factor_set real
  | Iq_output_format_float_complex_set
  | Requested_start_set real
  | Requested_length_set real
  | Repetition_mode_streaming_set real
  | Sensor_set int
  | Receiver_gain_set real

type_synonym acc_service_configuration_t = "setting list option"

text \<open>
  Every call that leaves the program. \<open>Write_sample s\<close> is one \<open>fprintf(file, ...)\<close> of a
  sample, with the text it produced; \<open>Write_newline\<close> is \<open>fprintf(file, "\n")\<close>;
  \<open>Printf s\<close> is a diagnostic \<open>printf\<close>.
\<close>

datatype event =
    Signal_install
  | Hal_init
  | Hal_get_implementation
  | Mem_alloc
  | Mem_free
  | Rss_activate
  | Rss_deactivate
  | Configuration_create service_type_t
  | Configuration_set setting
  | Configuration_destroy service_type_t
  | Service_create
  | Get_metadata
  | Activate
  | Fopen
  | Get_next
  | Write_sample string
  | Write_newline
  | Fflush_stdout
  | Fclose
  | Deactivate
  | Destroy
  | Printf string
  | Print_running_avg
  | Print_usage

text \<open>
  The answers of the outside world during one run. \<open>get_next\<close> functions give, for the
  \<open>n\<close>-th call (counted from 0), \<open>None\<close> when the call reports failure and otherwise the
  contents of the data buffer after the call, by index. \<open>data_length\<close> is the element count
  that the metadata query reports (\<open>bin_count\<close> or \<open>data_length\<close>); the model puts no bound
  on it. \<open>interrupted n\<close> is the value of the volatile variable \<open>interrupted\<close> at the \<open>n\<close>-th
  time the loop condition reads it.
\<close>

record provider =
  hal_init_ok :: bool
  mem_alloc_ok :: bool
  rss_activate_ok :: bool
  configuration_create_ok :: bool
  service_create_ok :: "acc_service_configuration_t \<Rightarrow> bool"
  data_length :: nat
  activate_ok :: bool
  fopen_ok :: bool
  power_bins_get_next :: "nat \<Rightarrow> (nat \<Rightarrow> 16 word) option"
  envelope_get_next :: "nat \<Rightarrow> (nat \<Rightarrow> 16 word) option"
  iq_get_next :: "nat \<Rightarrow> (nat \<Rightarrow> complex) option"
  deactivate_ok :: bool
  interrupted :: "nat \<Rightarrow> int"

subsection \<open>The signal handler\<close>

definition SIGINT :: int where "SIGINT = 2"

text \<open>\<open>interrupt_handler\<close>, as a function of the signal number and the current flag.\<close>

definition interrupt_handler :: "int \<Rightarrow> int \<Rightarrow> int" where
  "interrupt_handler signum flag = (if signum = SIGINT then 1 else flag)"

subsection \<open>Rendering samples\<close>

text \<open>\<open>printf("%u", x)\<close>: the decimal digits of \<open>x\<close>, without leading zeros.\<close>

definition digit_char :: "nat \<Rightarrow> char" where
  "digit_char d = ''0123456789'' ! d"

fun dec_string :: "nat \<Rightarrow> string" where
  "dec_string n =
     (if n < 10 then [digit_char n] else dec_string (n div 10) @ [digit_char (n mod 10)])"

declare dec_string.simps [simp del]

definition TAB :: char where "TAB = CHR 0x09"

definition NEWLINE :: char where "NEWLINE = CHR 0x0A"

text \<open>\<open>"%u\t"\<close> applied to \<open>(unsigned int)power_bins_data[index]\<close>.\<close>

definition power_bin_format :: "16 word \<Rightarrow> string" where
  "power_bin_format x = dec_string (unat x) @ [TAB]"

text \<open>
  \<open>"%u\t"\<close> applied to \<open>(unsigned int)(envelope_data[index] + 0.5f)\<close>: the sample is
  converted to floating point, one half is added and the sum is truncated. Every 16-bit
  value plus one half is a binary fraction of 17 bits, which single precision holds
  exactly, so the sum is computed here over the reals.
\<close>

definition envelope_format :: "16 word \<Rightarrow> string" where
  "envelope_format x = dec_string (nat \<lfloor>real (unat x) + 1 / 2\<rfloor>) @ [TAB]"

text \<open>
  \<open>"%" PRIfloat "\t%" PRIfloat "\t"\<close> applied to the real and imaginary part. The macros
  \<open>PRIfloat\<close> and \<open>ACC_LOG_FLOAT_TO_INTEGER\<close> come from a header outside the repository:
  the text they produce for a value is the parameter \<open>prifloat\<close>.
\<close>

definition iq_format :: "(real \<Rightarrow> string) \<Rightarrow> complex \<Rightarrow> string" where
  "iq_format prifloat z = prifloat (Re z) @ [TAB] @ prifloat (Im z) @ [TAB]"

subsection \<open>The acquisition loop\<close>

text \<open>
  The three \<open>execute_*\<close> functions of the source are one text up to the names of the service
  calls, two diagnostic messages and the way a sample is printed. \<open>service_ops\<close> collects
  these differences.
\<close>

record 's service_ops =
  create_failed_msg :: string
  get_next_failed_msg :: string
  get_next :: "provider \<Rightarrow> nat \<Rightarrow> (nat \<Rightarrow> 's) option"
  sample_format :: "'s \<Rightarrow> string"

text \<open>
  The body of the \<open>for\<close> loop together with the newline and the flush that follow it:
  what one successful iteration does after \<open>get_next\<close>.
\<close>

definition write_frame :: "'s service_ops \<Rightarrow> string option \<Rightarrow> nat \<Rightarrow> (nat \<Rightarrow> 's) \<Rightarrow> event list" where
  "write_frame ops path len data =
     map (\<lambda>index. Write_sample (sample_format ops (data index))) [0..<len]
     @ [Write_newline]
     @ (if path = None then [Fflush_stdout] else [])"

text \<open>
  The \<open>while\<close> loop. \<open>n\<close> counts the iterations started so far, \<open>updates\<close> is the C variable,
  \<open>tr\<close> the trace so far. The result is \<open>None\<close> when the loop never ends; otherwise the flag
  says whether the loop was left through its condition (\<open>True\<close>) or through the
  \<open>return false\<close> of a failed \<open>get_next\<close> (\<open>False\<close>).
\<close>

partial_function (option) poll_loop ::
  "'s service_ops \<Rightarrow> string option \<Rightarrow> bool \<Rightarrow> 16 word \<Rightarrow> provider \<Rightarrow>
   nat \<Rightarrow> 16 word \<Rightarrow> event list \<Rightarrow> (bool \<times> event list) option" where
  "poll_loop ops path wait count env n updates tr =
     (if (wait \<and> interrupted env n = 0) \<or> updates < count then
        (case get_next ops env n of
           Some data \<Rightarrow>
             poll_loop ops path wait count env (Suc n)
               (if \<not> wait then updates + 1 else updates)
               (tr @ [Get_next] @ write_frame ops path (data_length env) data)
         | None \<Rightarrow>
             Some (False, tr @ [Get_next, Printf (get_next_failed_msg ops), Fflush_stdout]))
      else Some (True, tr))"

declare poll_loop.simps [code]

subsection \<open>The execute functions\<close>

text \<open>
  The common text of \<open>execute_power_bin\<close>, \<open>execute_envelope\<close> and \<open>execute_iq\<close>. The result
  is the returned \<open>bool\<close> and the trace of the call, or \<open>None\<close> when the loop never ends.
  The two \<open>return false\<close> inside the activated branch (the output file cannot be opened, a
  \<open>get_next\<close> fails) leave the function at once, as in the source.
\<close>

definition execute_service ::
  "'s service_ops \<Rightarrow> acc_service_configuration_t \<Rightarrow> string option \<Rightarrow> bool \<Rightarrow> 16 word \<Rightarrow>
   provider \<Rightarrow> (bool \<times> event list) option" where
  "execute_service ops configuration path wait count env =
     (if \<not> service_create_ok env configuration then
        Some (False, [Service_create, Printf (create_failed_msg ops)])
      else if activate_ok env then
        (if path \<noteq> None \<and> \<not> fopen_ok env then
           Some (False, [Service_create, Get_metadata, Activate, Fopen,
                         Printf ''opening file failed\<newline>''])
         else
           (case poll_loop ops path wait count env 0 0
                   ([Service_create, Get_metadata, Activate]
                    @ (if path \<noteq> None then [Fopen] else [])) of
              None \<Rightarrow> None
            | Some (False, tr) \<Rightarrow> Some (False, tr)
            | Some (True, tr) \<Rightarrow>
                Some (deactivate_ok env,
                      tr @ (if path \<noteq> None then [Fclose] else []) @ [Deactivate, Destroy])))
      else
        Some (False, [Service_create, Get_metadata, Activate,
                      Printf ''acc_service_activate() failed\<newline>'', Destroy]))"

definition power_bin_ops :: "(16 word) service_ops" where
  "power_bin_ops =
     \<lparr> create_failed_msg = ''acc_service_create failed\<newline>'',
       get_next_failed_msg = ''Power bin data not properly retrieved\<newline>'',
       get_next = power_bins_get_next,
       sample_format = power_bin_format \<rparr>"

definition envelope_ops :: "(16 word) service_ops" where
  "envelope_ops =
     \<lparr> create_failed_msg = ''acc_Service_create failed\<newline>'',
       get_next_failed_msg = ''Envelope data not properly retrieved\<newline>'',
       get_next = envelope_get_next,
       sample_format = envelope_format \<rparr>"

definition iq_ops :: "(real \<Rightarrow> string) \<Rightarrow> complex service_ops" where
  "iq_ops prifloat =
     \<lparr> create_failed_msg = ''acc_service_create failed\<newline>'',
       get_next_failed_msg = ''IQ data not properly retrieved\<newline>'',
       get_next = iq_get_next,
       sample_format = iq_format prifloat \<rparr>"

definition execute_power_bin ::
  "acc_service_configuration_t \<Rightarrow> string option \<Rightarrow> bool \<Rightarrow> 16 word \<Rightarrow> provider \<Rightarrow>
   (bool \<times> event list) option" where
  "execute_power_bin = execute_service power_bin_ops"

definition execute_envelope ::
  "acc_service_configuration_t \<Rightarrow> string option \<Rightarrow> bool \<Rightarrow> 16 word \<Rightarrow> provider \<Rightarrow>
   (bool \<times> event list) option" where
  "execute_envelope = execute_service envelope_ops"

definition execute_iq ::
  "(real \<Rightarrow> string) \<Rightarrow> acc_service_configuration_t \<Rightarrow> string option \<Rightarrow> bool \<Rightarrow> 16 word \<Rightarrow>
   provider \<Rightarrow> (bool \<times> event list) option" where
  "execute_iq prifloat = execute_service (iq_ops prifloat)"

subsection \<open>The configuration builders\<close>

text \<open>
  Each builder returns the configuration pointer and the calls it made. The settings are
  applied in the order of the source.
\<close>

definition set_up_power_bin :: "input_t \<Rightarrow> provider \<Rightarrow> acc_service_configuration_t \<times> event list" where
  "set_up_power_bin input env =
     (if \<not> configuration_create_ok env then
        (None, [Configuration_create POWER_BIN,
                Printf ''acc_service_power_bin_configuration_create() failed\<newline>''])
      else
        (let settings =
               (if service_profile input > 0 then [Profile_set (service_profile input)] else [])
               @ [Requested_bin_count_set (n_bins input),
                  Requested_start_set (start_m input),
                  Requested_length_set (end_m input - start_m input),
                  Repetition_mode_streaming_set (frequency input),
                  Sensor_set (sensor input)]
               @ (if gain input \<ge> 0 then [Receiver_gain_set (gain input)] else [])
         in (Some settings, Configuration_create POWER_BIN # map Configuration_set settings)))"

definition set_up_envelope :: "input_t \<Rightarrow> provider \<Rightarrow> acc_service_configuration_t \<times> event list" where
  "set_up_envelope input env =
     (if \<not> configuration_create_ok env then
        (None, [Configuration_create ENVELOPE,
                Printf ''acc_service_envelope_configuration_create() failed\<newline>''])
      else
        (let profile =
               (if service_profile input > 0 then [Profile_set (service_profile input)] else []);
             average =
               (if running_avg input \<ge> 0
                then [Running_average_factor_set (running_avg input)] else []);
             rest =
               [Requested_start_set (start_m input),
                Requested_length_set (end_m input - start_m input),
                Repetition_mode_streaming_set (frequency input)]
               @ (if gain input \<ge> 0 then [Receiver_gain_set (gain input)] else [])
         in (Some (profile @ average @ rest),
             Configuration_create ENVELOPE # map Configuration_set profile
             @ (if running_avg input \<ge> 0 then [Print_running_avg] else [])
             @ map Configuration_set average
             @ map Configuration_set rest)))"

definition set_up_iq :: "input_t \<Rightarrow> provider \<Rightarrow> acc_service_configuration_t \<times> event list" where
  "set_up_iq input env =
     (if \<not> configuration_create_ok env then
        (None, [Configuration_create IQ,
                Printf ''acc_service_iq_configuration_create() failed\<newline>''])
      else
        (let settings =
               (if service_profile input > 0 then [Profile_set (service_profile input)] else [])
               @ [Iq_output_format_float_complex_set,
                  Requested_start_set (start_m input),
                  Requested_length_set (end_m input - start_m input),
                  Repetition_mode_streaming_set (frequency input)]
               @ (if gain input \<ge> 0 then [Receiver_gain_set (gain input)] else [])
         in (Some settings, Configuration_create IQ # map Configuration_set settings)))"

subsection \<open>Option parsing\<close>

text \<open>
  \<open>getopt_long\<close>, \<open>atoi\<close> and \<open>strtof\<close> belong to the C library. The command line is given
  to the model as the list of options \<open>getopt_long\<close> reports, each with its argument already
  converted by the call the source applies to it: \<open>atoi\<close> (a C \<open>int\<close>) or \<open>strtof\<close>.
  \<open>Opt_unknown\<close> is the code \<open>'?'\<close>.
\<close>

datatype option_code =
    Opt_t int
  | Opt_c int
  | Opt_b real
  | Opt_e real
  | Opt_f real
  | Opt_g real
  | Opt_n int
  | Opt_y int
  | Opt_o string
  | Opt_r real
  | Opt_s int
  | Opt_v
  | Opt_h
  | Opt_unknown

text \<open>
  How \<open>parse_options\<close> ends: it returns \<open>true\<close> or \<open>false\<close>, leaving the input record as
  given, or it ends the process by \<open>exit(EXIT_FAILURE)\<close>.
\<close>

datatype parse_result = Parse_true input_t | Parse_false input_t | Parse_exit

text \<open>
  The assignment \<open>input->update_count = atoi(optarg)\<close> converts an \<open>int\<close> to \<open>uint16_t\<close>,
  and \<open>input->service_profile = atoi(optarg)\<close> to \<open>uint32_t\<close>: both are \<open>word_of_int\<close>.
\<close>

fun parse_options ::
  "option_code list \<Rightarrow> provider \<Rightarrow> input_t \<Rightarrow> event list \<Rightarrow> parse_result \<times> event list" where
  "parse_options [] env input tr =
     (if service_type input = INVALID_SERVICE
      then (Parse_false input, tr @ [Printf ''Missing option service type.\<newline>'', Print_usage])
      else (Parse_true input, tr))"
| "parse_options (Opt_t v # rest) env input tr =
     (if v = 0 then parse_options rest env (input\<lparr>service_type := POWER_BIN\<rparr>) tr
      else if v = 1 then parse_options rest env (input\<lparr>service_type := ENVELOPE\<rparr>) tr
      else if v = 2 then parse_options rest env (input\<lparr>service_type := IQ\<rparr>) tr
      else (Parse_false input, tr @ [Printf ''Invalid service type.\<newline>'', Print_usage]))"
| "parse_options (Opt_c v # rest) env input tr =
     parse_options rest env
       (input\<lparr>update_count := word_of_int v, wait_for_interrupt := False\<rparr>) tr"
| "parse_options (Opt_b v # rest) env input tr =
     parse_options rest env (input\<lparr>start_m := v\<rparr>) tr"
| "parse_options (Opt_e v # rest) env input tr =
     parse_options rest env (input\<lparr>end_m := v\<rparr>) tr"
| "parse_options (Opt_f f # rest) env input tr =
     (if f > 0 \<and> f < 100000 then parse_options rest env (input\<lparr>frequency := f\<rparr>) tr
      else (Parse_exit, tr @ [Printf ''Frequency out of range.\<newline>'', Print_usage]))"
| "parse_options (Opt_g g # rest) env input tr =
     (if g \<ge> 0 \<and> g \<le> 1 then parse_options rest env (input\<lparr>gain := g\<rparr>) tr
      else (Parse_exit, tr @ [Printf ''Gain out of range.\<newline>'', Print_usage]))"
| "parse_options (Opt_n n # rest) env input tr =
     (if n > 0 \<and> n \<le> 32 then parse_options rest env (input\<lparr>n_bins := n\<rparr>) tr
      else (Parse_exit, tr @ [Printf ''Number of bins out of range.\<newline>'', Print_usage]))"
| "parse_options (Opt_y v # rest) env input tr =
     parse_options rest env (input\<lparr>service_profile := word_of_int v\<rparr>) tr"
| "parse_options (Opt_o path # rest) env input tr =
     (if \<not> mem_alloc_ok env
      then (Parse_false (input\<lparr>file_path := None\<rparr>),
            tr @ [Mem_alloc, Printf ''Failed allocating memory\<newline>''])
      else parse_options rest env (input\<lparr>file_path := Some path\<rparr>) (tr @ [Mem_alloc]))"
| "parse_options (Opt_r r # rest) env input tr =
     (if r \<ge> 0 \<and> r \<le> 1 then parse_options rest env (input\<lparr>running_avg := r\<rparr>) tr
      else (Parse_exit,
            tr @ [Printf ''Running average factor out of range.\<newline>'', Print_usage]))"
| "parse_options (Opt_s s # rest) env input tr =
     (if s > 0 \<and> s \<le> 4 then parse_options rest env (input\<lparr>sensor := s\<rparr>) tr
      else (Parse_exit, tr @ [Printf ''Sensor id out of range.\<newline>'', Print_usage]))"
| "parse_options (Opt_v # rest) env input tr =
     parse_options rest env (input\<lparr>log_level := ACC_LOG_LEVEL_VERBOSE\<rparr>) tr"
| "parse_options (Opt_h # rest) env input tr = (Parse_false input, tr @ [Print_usage])"
| "parse_options (Opt_unknown # rest) env input tr = (Parse_false input, tr @ [Print_usage])"

subsection \<open>The main function\<close>

text \<open>The statement \<open>if (input.file_path != NULL) acc_os_mem_free(input.file_path)\<close>.\<close>

definition free_file_path :: "input_t \<Rightarrow> event list" where
  "free_file_path input = (if file_path input \<noteq> None then [Mem_free] else [])"

text \<open>
  The \<open>switch\<close> of \<open>main\<close> and what follows it, continuing the trace \<open>tr\<close>. The two first
  cases return when their builder gives \<open>NULL\<close>; the \<open>IQ\<close> case has no such \<open>return\<close> and
  goes on to \<open>execute_iq\<close> with the pointer it got.
\<close>

definition main_switch ::
  "(real \<Rightarrow> string) \<Rightarrow> input_t \<Rightarrow> provider \<Rightarrow> event list \<Rightarrow> (exit_status \<times> event list) option" where
  "main_switch prifloat input env tr =
     (case service_type input of
        POWER_BIN \<Rightarrow>
          (case set_up_power_bin input env of
             (None, tr_s) \<Rightarrow> Some (EXIT_FAILURE, tr @ tr_s @ free_file_path input)
           | (Some c, tr_s) \<Rightarrow>
               (case execute_power_bin (Some c) (file_path input) (wait_for_interrupt input)
                       (update_count input) env of
                  None \<Rightarrow> None
                | Some (service_status, tr_e) \<Rightarrow>
                    if \<not> service_status
                    then Some (EXIT_FAILURE,
                               tr @ tr_s @ tr_e @ free_file_path input
                               @ [Printf ''execute_power_bin() failed\<newline>''])
                    else Some (EXIT_SUCCESS,
                               tr @ tr_s @ tr_e @ free_file_path input
                               @ [Configuration_destroy POWER_BIN, Rss_deactivate])))
      | ENVELOPE \<Rightarrow>
          (case set_up_envelope input env of
             (None, tr_s) \<Rightarrow> Some (EXIT_FAILURE, tr @ tr_s @ free_file_path input)
           | (Some c, tr_s) \<Rightarrow>
               (case execute_envelope (Some c) (file_path input) (wait_for_interrupt input)
                       (update_count input) env of
                  None \<Rightarrow> None
                | Some (service_status, tr_e) \<Rightarrow>
                    if \<not> service_status
                    then Some (EXIT_FAILURE,
                               tr @ tr_s @ tr_e @ free_file_path input
                               @ [Printf ''execute_envelope() failed\<newline>''])
                    else Some (EXIT_SUCCESS,
                               tr @ tr_s @ tr_e @ free_file_path input
                               @ [Configuration_destroy ENVELOPE, Rss_deactivate])))
      | IQ \<Rightarrow>
          (case set_up_iq input env of
             (iq_configuration, tr_s) \<Rightarrow>
               (case execute_iq prifloat iq_configuration (file_path input)
                       (wait_for_interrupt input) (update_count input) env of
                  None \<Rightarrow> None
                | Some (service_status, tr_e) \<Rightarrow>
                    if \<not> service_status
                    then Some (EXIT_FAILURE,
                               tr @ tr_s
                               @ (if iq_configuration = None then free_file_path input else [])
                               @ tr_e @ free_file_path input
                               @ [Printf ''execute_iq() failed\<newline>''])
                    else Some (EXIT_SUCCESS,
                               tr @ tr_s
                               @ (if iq_configuration = None then free_file_path input else [])
                               @ tr_e @ free_file_path input
                               @ [Configuration_destroy IQ, Rss_deactivate])))
      | INVALID_SERVICE \<Rightarrow>
          Some (EXIT_FAILURE, tr @ [Printf ''Invalid service_type 0\<newline>'']))"

text \<open>
  \<open>main\<close>: the exit status of the process and the trace of the run, or \<open>None\<close> when the run
  never ends. \<open>argv\<close> is the command line as \<open>getopt_long\<close> reports it.
\<close>

definition main ::
  "(real \<Rightarrow> string) \<Rightarrow> option_code list \<Rightarrow> provider \<Rightarrow> (exit_status \<times> event list) option" where
  "main prifloat argv env =
     (if \<not> hal_init_ok env then Some (EXIT_FAILURE, [Signal_install, Hal_init])
      else
        (case parse_options argv env initialize_input [Signal_install, Hal_init] of
           (Parse_exit, tr) \<Rightarrow> Some (EXIT_FAILURE, tr)
         | (Parse_false input, tr) \<Rightarrow> Some (EXIT_FAILURE, tr @ free_file_path input)
         | (Parse_true input, tr) \<Rightarrow>
             if \<not> rss_activate_ok env
             then Some (EXIT_FAILURE, tr @ [Hal_get_implementation, Rss_activate])
             else main_switch prifloat input env (tr @ [Hal_get_implementation, Rss_activate])))"

subsection \<open>Observations on a trace\<close>

text \<open>The number of frame lines written: one \<open>fprintf(file, "\n")\<close> ends each.\<close>

definition frame_lines :: "event list \<Rightarrow> nat" where
  "frame_lines tr = count_list tr Write_newline"

definition get_next_calls :: "event list \<Rightarrow> nat" where
  "get_next_calls tr = count_list tr Get_next"

definition destroy_calls :: "event list \<Rightarrow> nat" where
  "destroy_calls tr = count_list tr Destroy"

text \<open>The characters written to \<open>file\<close>, in order.\<close>

fun event_text :: "event \<Rightarrow> string" where
  "event_text (Write_sample s) = s"
| "event_text Write_newline = [NEWLINE]"
| "event_text _ = []"

definition file_text :: "event list \<Rightarrow> string" where
  "file_text tr = concat (map event_text tr)"

text \<open>
  Notions used to state the properties of the loop: its condition, the value of \<open>updates\<close>
  after \<open>k\<close> successful iterations, the events of the iterations \<open>n, ..., m - 1\<close> when each
  \<open>get_next\<close> succeeds, and the events of the failing iteration.
\<close>

definition loop_condition :: "bool \<Rightarrow> 16 word \<Rightarrow> provider \<Rightarrow> nat \<Rightarrow> 16 word \<Rightarrow> bool" where
  "loop_condition wait count env n updates =
     ((wait \<and> interrupted env n = 0) \<or> updates < count)"

definition updates_after :: "bool \<Rightarrow> 16 word \<Rightarrow> nat \<Rightarrow> 16 word" where
  "updates_after wait updates k = (if wait then updates else updates + of_nat k)"

definition frames_trace :: "'s service_ops \<Rightarrow> string option \<Rightarrow> provider \<Rightarrow> nat \<Rightarrow> nat \<Rightarrow> event list" where
  "frames_trace ops path env n m =
     concat (map (\<lambda>i. Get_next # write_frame ops path (data_length env) (the (get_next ops env i)))
               [n..<m])"

definition failed_poll :: "'s service_ops \<Rightarrow> event list" where
  "failed_poll ops = [Get_next, Printf (get_next_failed_msg ops), Fflush_stdout]"

text \<open>
  What holds when the loop, started at iteration \<open>n\<close>, ends with result \<open>y\<close>: it stopped at
  some iteration \<open>m\<close>, every earlier iteration passed the condition and got a frame, and the
  iteration \<open>m\<close> either failed the condition or was the one whose \<open>get_next\<close> failed.
\<close>

definition loop_post ::
  "'s service_ops \<Rightarrow> string option \<Rightarrow> bool \<Rightarrow> 16 word \<Rightarrow> provider \<Rightarrow>
   nat \<Rightarrow> 16 word \<Rightarrow> event list \<Rightarrow> bool \<times> event list \<Rightarrow> bool" where
  "loop_post ops path wait count env n updates tr y = (\<exists>m\<ge>n.
           (\<forall>i. n \<le> i \<and> i < m \<longrightarrow>
                get_next ops env i \<noteq> None
                \<and> loop_condition wait count env i (updates_after wait updates (i - n)))
         \<and> snd y = tr @ frames_trace ops path env n m @ (if fst y then [] else failed_poll ops)
         \<and> (if fst y
            then \<not> loop_condition wait count env m (updates_after wait updates (m - n))
            else get_next ops env m = None
                 \<and> loop_condition wait count env m (updates_after wait updates (m - n))))"

text \<open>
  The events that \<open>main\<close>, \<open>parse_options\<close> and the configuration builders make themselves,
  as opposed to those made inside an \<open>execute_*\<close> function on the service handle and the
  output file.
\<close>

fun is_front_end :: "event \<Rightarrow> bool" where
  "is_front_end Service_create = False"
| "is_front_end Get_metadata = False"
| "is_front_end Activate = False"
| "is_front_end Fopen = False"
| "is_front_end Get_next = False"
| "is_front_end (Write_sample s) = False"
| "is_front_end Write_newline = False"
| "is_front_end Fflush_stdout = False"
| "is_front_end Fclose = False"
| "is_front_end Deactivate = False"
| "is_front_end Destroy = False"
| "is_front_end _ = True"

text \<open>
  The \<open>execute_*\<close> call that \<open>main\<close> makes for a parsed input and a configuration pointer,
  and whether the \<open>get_next\<close> function of the selected service fails at its call \<open>k\<close>.
\<close>

definition run_service ::
  "(real \<Rightarrow> string) \<Rightarrow> input_t \<Rightarrow> acc_service_configuration_t \<Rightarrow> provider \<Rightarrow>
   (bool \<times> event list) option" where
  "run_service prifloat input configuration env =
     (case service_type input of
        POWER_BIN \<Rightarrow>
          execute_power_bin configuration (file_path input) (wait_for_interrupt input)
            (update_count input) env
      | ENVELOPE \<Rightarrow>
          execute_envelope configuration (file_path input) (wait_for_interrupt input)
            (update_count input) env
      | IQ \<Rightarrow>
          execute_iq prifloat configuration (file_path input) (wait_for_interrupt input)
            (update_count input) env
      | INVALID_SERVICE \<Rightarrow> None)"

definition get_next_fails :: "service_type_t \<Rightarrow> provider \<Rightarrow> nat \<Rightarrow> bool" where
  "get_next_fails t env k =
     (case t of
        POWER_BIN \<Rightarrow> power_bins_get_next env k = None
      | ENVELOPE \<Rightarrow> envelope_get_next env k = None
      | IQ \<Rightarrow> iq_get_next env k = None
      | INVALID_SERVICE \<Rightarrow> False)"

definition status_of :: "bool \<Rightarrow> exit_status" where
  "status_of service_status = (if service_status then EXIT_SUCCESS else EXIT_FAILURE)"

text \<open>
  The calls of an \<open>execute_*\<close> function before the loop when the service is activated, and
  after a loop that was left through its condition.
\<close>

definition opening_calls :: "string option \<Rightarrow> event list" where
  "opening_calls path = [Service_create, Get_metadata, Activate] @ (if path \<noteq> None then [Fopen] else [])"

definition closing_calls :: "string option \<Rightarrow> event list" where
  "closing_calls path = (if path \<noteq> None then [Fclose] else []) @ [Deactivate, Destroy]"

text \<open>The text of one frame line, and the number of tab-terminated fields of a line.\<close>

definition frame_line :: "('s \<Rightarrow> string) \<Rightarrow> nat \<Rightarrow> (nat \<Rightarrow> 's) \<Rightarrow> string" where
  "frame_line format len data = concat (map (\<lambda>index. format (data index)) [0..<len]) @ [NEWLINE]"

definition field_count :: "string \<Rightarrow> nat" where
  "field_count line = count_list line TAB"

text \<open>
  The values the loop reads from \<open>interrupted\<close> when the signal handler runs once, for
  \<open>SIGINT\<close>, at a moment when \<open>w\<close> frame lines are complete. The reads \<open>0, ..., w - 1\<close> took
  place before that moment and the reads after \<open>w\<close> take place later; the read \<open>w\<close> falls
  before the signal or after it, which \<open>seen_at_once\<close> tells.
\<close>

definition sigint_flag :: "nat \<Rightarrow> bool \<Rightarrow> nat \<Rightarrow> int" where
  "sigint_flag w seen_at_once k =
     (if w < k \<or> (w = k \<and> seen_at_once) then interrupt_handler SIGINT 0 else 0)"

text \<open>
  A provider for examples: every call succeeds, frames have three elements, the \<open>n\<close>-th
  frame of each service holds \<open>3 n + 1\<close>, \<open>3 n + 2\<close>, \<open>3 n + 3\<close>, and no signal arrives.
\<close>

definition counting_provider :: provider where
  "counting_provider =
     \<lparr> hal_init_ok = True,
       mem_alloc_ok = True,
       rss_activate_ok = True,
       configuration_create_ok = True,
       service_create_ok = (\<lambda>configuration. configuration \<noteq> None),
       data_length = 3,
       activate_ok = True,
       fopen_ok = True,
       power_bins_get_next = (\<lambda>n. Some (\<lambda>index. of_nat (3 * n + index + 1))),
       envelope_get_next = (\<lambda>n. Some (\<lambda>index. of_nat (3 * n + index + 1))),
       iq_get_next = (\<lambda>n. Some (\<lambda>index. Complex (real (3 * n + index + 1)) 0)),
       deactivate_ok = True,
       interrupted = (\<lambda>n. 0) \<rparr>"

text \<open>A stand-in for the \<open>PRIfloat\<close> rendering in examples: the integer part in decimal.\<close>

definition integer_part :: "real \<Rightarrow> string" where
  "integer_part x = dec_string (nat \<lfloor>x\<rfloor>)"

text \<open>
  The same provider, except that each \<open>get_next\<close> succeeds \<open>k\<close> times and fails from then on.
\<close>

definition failing_after :: "nat \<Rightarrow> provider" where
  "failing_after k =
     counting_provider
       \<lparr> power_bins_get_next :=
           (\<lambda>n. if n < k then power_bins_get_next counting_provider n else None),
         envelope_get_next :=
           (\<lambda>n. if n < k then envelope_get_next counting_provider n else None),
         iq_get_next :=
           (\<lambda>n. if n < k then iq_get_next counting_provider n else None) \<rparr>"

text \<open>
  What a run that writes the given lines looks like: the execute function returns the
  result of \<open>acc_service_deactivate\<close>, it called \<open>get_next\<close> once per line, and the text
  written to \<open>file\<close> is the lines one after the other. A line is well formed when it has
  the given number of tab-terminated fields and ends with its only newline.
\<close>

definition writes_lines :: "(bool \<times> event list) option \<Rightarrow> provider \<Rightarrow> string list \<Rightarrow> bool" where
  "writes_lines result env lines =
     (\<exists>tr. result = Some (deactivate_ok env, tr)
          \<and> frame_lines tr = length lines
          \<and> get_next_calls tr = length lines
          \<and> file_text tr = concat lines)"

definition well_formed_line :: "nat \<Rightarrow> string \<Rightarrow> bool" where
  "well_formed_line nfields line =
     (field_count line = nfields \<and> count_list line NEWLINE = 1 \<and> last line = NEWLINE)"

text \<open>
  What C7 says of a run in which the signal arrives when \<open>w\<close> frame lines are complete: the
  execute function returns, having written at most one more line and made at most one more
  \<open>get_next\<close> call; none at all when the next read of the flag already sees the signal; and
  when nothing fails (\<open>all_ok\<close>), exactly the \<open>w\<close> lines, plus the one of the iteration
  that was under way.
\<close>

definition stops_after_signal :: "(bool \<times> event list) option \<Rightarrow> nat \<Rightarrow> bool \<Rightarrow> bool \<Rightarrow> bool" where
  "stops_after_signal result w seen_at_once all_ok =
     (\<exists>r tr. result = Some (r, tr)
        \<and> frame_lines tr \<le> w + 1 \<and> get_next_calls tr \<le> w + 1
        \<and> (seen_at_once \<longrightarrow> frame_lines tr \<le> w \<and> get_next_calls tr \<le> w)
        \<and> (all_ok \<longrightarrow> frame_lines tr = (if seen_at_once then w else w + 1)
                       \<and> get_next_calls tr = frame_lines tr))"

text \<open>
  What the amended C5 says of a run that waits for the signal: if the execute function
  returns, every iteration it completed read the flag as \<open>0\<close>, and if the loop was left
  through its condition (the run then goes on to \<open>acc_service_deactivate\<close>) the flag was
  read as set; and when the service starts, no \<open>get_next\<close> ever fails (\<open>all_ok\<close>) and the
  flag is never set, the function does not return.
\<close>

definition runs_until_flag :: "(bool \<times> event list) option \<Rightarrow> provider \<Rightarrow> bool \<Rightarrow> bool" where
  "runs_until_flag result env all_ok =
     ((\<forall>r tr. result = Some (r, tr) \<longrightarrow>
          (\<forall>i<frame_lines tr. interrupted env i = 0)
          \<and> (Deactivate \<in> set tr \<longrightarrow> interrupted env (frame_lines tr) \<noteq> 0))
      \<and> (all_ok \<and> (\<forall>k. interrupted env k = 0) \<longrightarrow> result = None))"

section \<open>Properties\<close>

subsection \<open>Observations\<close>

lemma frame_lines_append [simp]: "frame_lines (a @ b) = frame_lines a + frame_lines b"
  by (simp add: frame_lines_def)
lemma get_next_calls_append [simp]: "get_next_calls (a @ b) = get_next_calls a + get_next_calls b"
  by (simp add: get_next_calls_def)
lemma destroy_calls_append [simp]: "destroy_calls (a @ b) = destroy_calls a + destroy_calls b"
  by (simp add: destroy_calls_def)
lemma file_text_append [simp]: "file_text (a @ b) = file_text a @ file_text b"
  by (simp add: file_text_def)

lemma count_list_map_other: "(\<And>x. f x \<noteq> e) \<Longrightarrow> count_list (map f xs) e = 0"
  by (induction xs) auto

lemma frame_lines_write_frame [simp]: "frame_lines (write_frame ops path len data) = 1"
  by (simp add: frame_lines_def write_frame_def count_list_map_other)
lemma get_next_calls_write_frame [simp]: "get_next_calls (write_frame ops path len data) = 0"
  by (simp add: get_next_calls_def write_frame_def count_list_map_other)
lemma destroy_calls_write_frame [simp]: "destroy_calls (write_frame ops path len data) = 0"
  by (simp add: destroy_calls_def write_frame_def count_list_map_other)

subsection \<open>The loop\<close>

lemma frames_trace_empty [simp]: "frames_trace ops path env n n = []"
  by (simp add: frames_trace_def)

lemma frames_trace_step:
  "n < m \<Longrightarrow> frames_trace ops path env n m =
     Get_next # write_frame ops path (data_length env) (the (get_next ops env n))
     @ frames_trace ops path env (Suc n) m"
  by (simp add: frames_trace_def upt_conv_Cons)

lemma updates_after_0 [simp]: "updates_after wait updates 0 = updates"
  by (simp add: updates_after_def)

lemma poll_loop_Some:
  assumes "poll_loop ops path wait count env n updates tr = Some y"
  shows "loop_post ops path wait count env n updates tr y"
proof (rule poll_loop.raw_induct [where P = loop_post, OF _ assms])
  fix poll_loop :: "'s service_ops \<Rightarrow> string option \<Rightarrow> bool \<Rightarrow> 16 word \<Rightarrow> provider \<Rightarrow>
   nat \<Rightarrow> 16 word \<Rightarrow> event list \<Rightarrow> (bool \<times> event list) option"
  fix ops path wait count env n updates tr y
  assume IH: "\<And>ops path wait count env n updates tr y.
        poll_loop ops path wait count env n updates tr = Some y \<Longrightarrow>
        loop_post ops path wait count env n updates tr y"
  assume step: "(if wait \<and> interrupted env n = 0 \<or> updates < count
      then case get_next ops env n of
           None \<Rightarrow>
             Some
              (False,
               tr @
               [Get_next, Printf (get_next_failed_msg ops), Fflush_stdout])
           | Some data \<Rightarrow>
               poll_loop ops path wait count env (Suc n)
                (if \<not> wait then updates + 1 else updates)
                (tr @
                 [Get_next] @ write_frame ops path (data_length env) data)
      else Some (True, tr)) =
     Some y"
  from step have step': "(if loop_condition wait count env n updates
      then case get_next ops env n of
           None \<Rightarrow> Some (False, tr @ failed_poll ops)
           | Some data \<Rightarrow>
               poll_loop ops path wait count env (Suc n)
                (if \<not> wait then updates + 1 else updates)
                (tr @ [Get_next] @ write_frame ops path (data_length env) data)
      else Some (True, tr)) = Some y"
    by (simp only: loop_condition_def failed_poll_def)
  note 1 = IH step'
  show "loop_post ops path wait count env n updates tr y"
  proof (cases "loop_condition wait count env n updates")
    case False
    with 1(2) have "y = (True, tr)" by simp
    with False show ?thesis
      unfolding loop_post_def by (intro exI [of _ n]) auto
  next
    case True
    show ?thesis
    proof (cases "get_next ops env n")
      case None
      with True 1(2) have "y = (False, tr @ failed_poll ops)"
        by simp
      with True None show ?thesis
        unfolding loop_post_def by (intro exI [of _ n]) auto
    next
      case (Some data)
      let ?u = "if \<not> wait then updates + 1 else updates"
      let ?t = "tr @ [Get_next] @ write_frame ops path (data_length env) data"
      from True Some 1(2) have "poll_loop ops path wait count env (Suc n) ?u ?t = Some y"
        by simp
      from 1(1) [OF this, unfolded loop_post_def] obtain m where m: "Suc n \<le> m"
        and inv: "\<forall>i. Suc n \<le> i \<and> i < m \<longrightarrow>
                get_next ops env i \<noteq> None
                \<and> loop_condition wait count env i (updates_after wait ?u (i - Suc n))"
        and tr: "snd y = ?t @ frames_trace ops path env (Suc n) m @ (if fst y then [] else failed_poll ops)"
        and fin: "if fst y
            then \<not> loop_condition wait count env m (updates_after wait ?u (m - Suc n))
            else get_next ops env m = None
                 \<and> loop_condition wait count env m (updates_after wait ?u (m - Suc n))"
        by blast
      have upd: "updates_after wait ?u (i - Suc n) = updates_after wait updates (i - n)"
        if "Suc n \<le> i" for i
      proof -
        from that obtain d where "i = Suc n + d" using le_Suc_ex by blast
        then show ?thesis by (simp add: updates_after_def)
      qed
      have "\<forall>i. n \<le> i \<and> i < m \<longrightarrow>
                get_next ops env i \<noteq> None
                \<and> loop_condition wait count env i (updates_after wait updates (i - n))"
      proof (intro allI impI)
        fix i assume i: "n \<le> i \<and> i < m"
        show "get_next ops env i \<noteq> None
                \<and> loop_condition wait count env i (updates_after wait updates (i - n))"
        proof (cases "i = n")
          case True
          with Some \<open>loop_condition wait count env n updates\<close> show ?thesis
            by simp
        next
          case False
          with i have "Suc n \<le> i \<and> i < m" by simp
          with inv upd show ?thesis by auto
        qed
      qed
      moreover from m tr Some have "snd y = tr @ frames_trace ops path env n m @ (if fst y then [] else failed_poll ops)"
        by (simp add: frames_trace_step [of n m])
      moreover from fin upd [OF m] have "if fst y
            then \<not> loop_condition wait count env m (updates_after wait updates (m - n))
            else get_next ops env m = None
                 \<and> loop_condition wait count env m (updates_after wait updates (m - n))"
        by (cases "fst y") auto
      ultimately show ?thesis using m unfolding loop_post_def by (intro exI [of _ m]) simp
    qed
  qed
qed

subsection \<open>Termination of the loop\<close>

lemma unat_succ: "(updates :: 16 word) < count \<Longrightarrow> unat (updates + 1) = Suc (unat updates)"
proof -
  assume "updates < count"
  then have "unat updates < unat count" by (simp add: word_less_nat_alt)
  moreover have "unat count < 2 ^ 16" using unsigned_less [of count] by simp
  ultimately have "unat updates + 1 < 2 ^ 16" by simp
  then show ?thesis by (simp add: unat_word_ariths)
qed

lemma poll_loop_bounded_terminates:
  "\<exists>y. poll_loop ops path False count env n updates tr = Some y"
proof (induction "unat count - unat updates" arbitrary: n updates tr)
  case 0
  then have "\<not> updates < count" by (simp add: word_less_nat_alt)
  then show ?case by (subst poll_loop.simps) auto
next
  case (Suc k)
  then have lt: "updates < count" by (simp add: word_less_nat_alt)
  show ?case
  proof (cases "get_next ops env n")
    case None
    with lt show ?thesis by (subst poll_loop.simps) auto
  next
    case (Some data)
    from lt Suc(2) have "k = unat count - unat (updates + 1)" by (simp add: unat_succ)
    from Suc(1) [OF this] Some lt show ?thesis by (subst poll_loop.simps) simp
  qed
qed

lemma poll_loop_unbounded_terminates:
  assumes "n \<le> k" and "interrupted env k \<noteq> 0 \<or> get_next ops env k = None"
    and "\<not> updates < count"
  shows "\<exists>y. poll_loop ops path True count env n updates tr = Some y"
  using assms(1)
proof (induction "k - n" arbitrary: n tr)
  case 0
  then have "n = k" by simp
  with assms(2,3) show ?case
    by (subst poll_loop.simps) (auto split: option.splits)
next
  case (Suc d)
  then have d: "d = k - Suc n" and le: "Suc n \<le> k" by simp_all
  show ?case
  proof (cases "interrupted env n \<noteq> 0 \<or> get_next ops env n = None")
    case True
    with assms(3) show ?thesis
      by (subst poll_loop.simps) (auto split: option.splits)
  next
    case False
    then obtain data where "get_next ops env n = Some data" and "interrupted env n = 0" by auto
    with Suc(1) [OF d le] show ?thesis by (subst poll_loop.simps) simp
  qed
qed

lemma poll_loop_diverges:
  assumes "\<forall>m\<ge>n. interrupted env m = 0 \<and> get_next ops env m \<noteq> None"
  shows "poll_loop ops path True count env n updates tr = None"
proof (rule ccontr)
  assume "poll_loop ops path True count env n updates tr \<noteq> None"
  then obtain y where "poll_loop ops path True count env n updates tr = Some y" by auto
  from poll_loop_Some [OF this] obtain m where "n \<le> m"
    and "if fst y
            then \<not> loop_condition True count env m (updates_after True updates (m - n))
            else get_next ops env m = None
                 \<and> loop_condition True count env m (updates_after True updates (m - n))"
    unfolding loop_post_def by blast
  with assms show False by (cases "fst y") (auto simp: loop_condition_def)
qed

subsection \<open>The front end\<close>

lemma front_end_observations:
  assumes "list_all is_front_end tr"
  shows "frame_lines tr = 0" "get_next_calls tr = 0" "destroy_calls tr = 0" "file_text tr = []"
    "Service_create \<notin> set tr" "Activate \<notin> set tr" "Deactivate \<notin> set tr"
  using assms
  by (induction tr; auto simp: frame_lines_def get_next_calls_def destroy_calls_def file_text_def
          elim: is_front_end.elims)+

lemma parse_options_front_end:
  "parse_options argv env input tr = (r, tr') \<Longrightarrow> list_all is_front_end tr \<Longrightarrow>
   list_all is_front_end tr'"
  by (induction argv env input tr rule: parse_options.induct) (auto split: if_splits)

lemma parse_options_wait:
  "parse_options argv env input tr = (Parse_true input', tr') \<Longrightarrow>
   (wait_for_interrupt input \<longrightarrow> update_count input = 0) \<Longrightarrow>
   (wait_for_interrupt input' \<longrightarrow> update_count input' = 0)"
  by (induction argv env input tr rule: parse_options.induct) (auto split: if_splits)

lemma parse_options_service_type:
  "parse_options argv env input tr = (Parse_true input', tr') \<Longrightarrow>
   service_type input' \<noteq> INVALID_SERVICE"
  by (induction argv env input tr rule: parse_options.induct) (auto split: if_splits)

lemma set_up_front_end:
  "list_all is_front_end (snd (set_up_power_bin input env))"
  "list_all is_front_end (snd (set_up_envelope input env))"
  "list_all is_front_end (snd (set_up_iq input env))"
  by (auto simp: set_up_power_bin_def set_up_envelope_def set_up_iq_def Let_def list_all_iff)

lemma free_file_path_front_end: "list_all is_front_end (free_file_path input)"
  by (simp add: free_file_path_def)


lemma main_Some_cases:
  assumes "main prifloat argv env = Some (status, tr)"
  shows "(status = EXIT_FAILURE \<and> list_all is_front_end tr)
       \<or> (\<exists>input tr0 configuration service_status tr_e pre post.
            parse_options argv env initialize_input [Signal_install, Hal_init]
              = (Parse_true input, tr0)
          \<and> run_service prifloat input configuration env = Some (service_status, tr_e)
          \<and> tr = pre @ tr_e @ post
          \<and> list_all is_front_end pre \<and> list_all is_front_end post
          \<and> status = status_of service_status)"
proof (cases "hal_init_ok env")
  case False
  with assms show ?thesis by (auto simp: main_def)
next
  case hal: True
  obtain r tr0 where p: "parse_options argv env initialize_input [Signal_install, Hal_init] = (r, tr0)"
    by (cases "parse_options argv env initialize_input [Signal_install, Hal_init]")
  have fe0: "list_all is_front_end tr0"
    by (rule parse_options_front_end [OF p]) simp
  show ?thesis
  proof (cases r)
    case Parse_exit
    with assms hal p fe0 show ?thesis by (auto simp: main_def)
  next
    case (Parse_false input)
    with assms hal p fe0 free_file_path_front_end [of input] show ?thesis
      by (auto simp: main_def)
  next
    case (Parse_true input)
    show ?thesis
    proof (cases "rss_activate_ok env")
      case False
      with assms hal p fe0 Parse_true show ?thesis by (auto simp: main_def)
    next
      case rss: True
      let ?pre = "tr0 @ [Hal_get_implementation, Rss_activate]"
      have pre: "list_all is_front_end ?pre" using fe0 by simp
      from assms hal p Parse_true rss
      have sw: "main_switch prifloat input env ?pre = Some (status, tr)"
        by (simp add: main_def)
      note ff = free_file_path_front_end [of input]
      show ?thesis
      proof (cases "service_type input")
        case INVALID_SERVICE
        with parse_options_service_type p Parse_true show ?thesis by blast
      next
        case POWER_BIN
        obtain c tr_s where su: "set_up_power_bin input env = (c, tr_s)"
          by (cases "set_up_power_bin input env")
        with set_up_front_end(1) [of input env] have fs: "list_all is_front_end tr_s" by simp
        show ?thesis
        proof (cases c)
          case None
          with sw POWER_BIN su pre fs ff show ?thesis by (auto simp: main_switch_def)
        next
          case (Some cfg)
          with sw POWER_BIN su obtain service_status tr_e where
            ex: "execute_power_bin (Some cfg) (file_path input) (wait_for_interrupt input)
                       (update_count input) env = Some (service_status, tr_e)"
            by (auto simp: main_switch_def split: option.splits)
          then have rs: "run_service prifloat input (Some cfg) env = Some (service_status, tr_e)"
            using POWER_BIN by (simp add: run_service_def)
          from sw POWER_BIN su Some ex obtain post where
            "tr = (?pre @ tr_s) @ tr_e @ post" "list_all is_front_end post"
            "status = status_of service_status"
            using ff by (auto simp: main_switch_def status_of_def split: if_splits)
          with p Parse_true rs pre fs show ?thesis
            by (intro disjI2 exI [of _ input] exI [of _ tr0] exI [of _ "Some cfg"]
                  exI [of _ service_status] exI [of _ tr_e] exI [of _ "?pre @ tr_s"]
                  exI [of _ post]) simp
        qed
      next
        case ENVELOPE
        obtain c tr_s where su: "set_up_envelope input env = (c, tr_s)"
          by (cases "set_up_envelope input env")
        with set_up_front_end(2) [of input env] have fs: "list_all is_front_end tr_s" by simp
        show ?thesis
        proof (cases c)
          case None
          with sw ENVELOPE su pre fs ff show ?thesis by (auto simp: main_switch_def)
        next
          case (Some cfg)
          with sw ENVELOPE su obtain service_status tr_e where
            ex: "execute_envelope (Some cfg) (file_path input) (wait_for_interrupt input)
                       (update_count input) env = Some (service_status, tr_e)"
            by (auto simp: main_switch_def split: option.splits)
          then have rs: "run_service prifloat input (Some cfg) env = Some (service_status, tr_e)"
            using ENVELOPE by (simp add: run_service_def)
          from sw ENVELOPE su Some ex obtain post where
            "tr = (?pre @ tr_s) @ tr_e @ post" "list_all is_front_end post"
            "status = status_of service_status"
            using ff by (auto simp: main_switch_def status_of_def split: if_splits)
          with p Parse_true rs pre fs show ?thesis
            by (intro disjI2 exI [of _ input] exI [of _ tr0] exI [of _ "Some cfg"]
                  exI [of _ service_status] exI [of _ tr_e] exI [of _ "?pre @ tr_s"]
                  exI [of _ post]) simp
        qed
      next
        case IQ
        obtain c tr_s where su: "set_up_iq input env = (c, tr_s)"
          by (cases "set_up_iq input env")
        with set_up_front_end(3) [of input env] have fs: "list_all is_front_end tr_s" by simp
        let ?pre2 = "?pre @ tr_s @ (if c = None then free_file_path input else [])"
        have pre2: "list_all is_front_end ?pre2" using pre fs ff by simp
        from sw IQ su obtain service_status tr_e where
          ex: "execute_iq prifloat c (file_path input) (wait_for_interrupt input)
                     (update_count input) env = Some (service_status, tr_e)"
          by (auto simp: main_switch_def split: option.splits)
        then have rs: "run_service prifloat input c env = Some (service_status, tr_e)"
          using IQ by (simp add: run_service_def)
        from sw IQ su ex obtain post where
          "tr = ?pre2 @ tr_e @ post" "list_all is_front_end post"
          "status = status_of service_status"
          using ff by (auto simp: main_switch_def status_of_def split: if_splits)
        with p Parse_true rs pre2 show ?thesis
          by (intro disjI2 exI [of _ input] exI [of _ tr0] exI [of _ c]
                exI [of _ service_status] exI [of _ tr_e] exI [of _ ?pre2]
                exI [of _ post]) simp
      qed
    qed
  qed
qed

subsection \<open>The execute functions\<close>

lemma frames_trace_counts [simp]:
  "frame_lines (frames_trace ops path env n m) = m - n"
  "get_next_calls (frames_trace ops path env n m) = m - n"
  "destroy_calls (frames_trace ops path env n m) = 0"
proof -
  define f where "f = (\<lambda>i. Get_next # write_frame ops path (data_length env) (the (get_next ops env i)))"
  have "frame_lines (concat (map f xs)) = length xs
      \<and> get_next_calls (concat (map f xs)) = length xs
      \<and> destroy_calls (concat (map f xs)) = 0" for xs
  proof (induction xs)
    case Nil
    show ?case by (simp add: frame_lines_def get_next_calls_def destroy_calls_def)
  next
    case (Cons x xs)
    have "frame_lines (f x) = 1" "get_next_calls (f x) = 1" "destroy_calls (f x) = 0"
      using frame_lines_write_frame [of ops path "data_length env" "the (get_next ops env x)"]
        get_next_calls_write_frame [of ops path "data_length env" "the (get_next ops env x)"]
        destroy_calls_write_frame [of ops path "data_length env" "the (get_next ops env x)"]
      by (simp_all add: f_def frame_lines_def get_next_calls_def destroy_calls_def)
    with Cons show ?case by simp
  qed
  from this [of "[n..<m]"]
  show "frame_lines (frames_trace ops path env n m) = m - n"
    "get_next_calls (frames_trace ops path env n m) = m - n"
    "destroy_calls (frames_trace ops path env n m) = 0"
    by (simp_all add: frames_trace_def f_def)
qed

lemma frames_trace_events:
  "e \<in> set (frames_trace ops path env n m) \<Longrightarrow>
   e = Get_next \<or> e = Write_newline \<or> e = Fflush_stdout \<or> (\<exists>s. e = Write_sample s)"
  by (auto simp: frames_trace_def write_frame_def split: if_splits)

lemma file_text_write_frame [simp]:
  "file_text (write_frame ops path len data) = frame_line (sample_format ops) len data"
proof -
  have "concat (map event_text (map (\<lambda>i. Write_sample (g i)) xs)) = concat (map g xs)"
    for g :: "nat \<Rightarrow> string" and xs
    by (induction xs) simp_all
  then show ?thesis
    by (simp add: file_text_def write_frame_def frame_line_def)
qed

lemma file_text_frames_trace:
  "file_text (frames_trace ops path env n m)
   = concat (map (\<lambda>k. frame_line (sample_format ops) (data_length env) (the (get_next ops env k)))
               [n..<m])"
proof -
  have "file_text (concat (map (\<lambda>i. Get_next # write_frame ops path (data_length env) (the (get_next ops env i))) xs))
    = concat (map (\<lambda>k. frame_line (sample_format ops) (data_length env) (the (get_next ops env k))) xs)" for xs
  proof (induction xs)
    case Nil
    show ?case by (simp add: file_text_def)
  next
    case (Cons x xs)
    have "file_text (Get_next # t) = file_text t" for t by (simp add: file_text_def)
    with Cons show ?case by simp
  qed
  then show ?thesis by (simp add: frames_trace_def)
qed

lemma opening_closing_counts [simp]:
  "frame_lines (opening_calls path) = 0" "get_next_calls (opening_calls path) = 0"
  "destroy_calls (opening_calls path) = 0" "file_text (opening_calls path) = []"
  "frame_lines (closing_calls path) = 0" "get_next_calls (closing_calls path) = 0"
  "destroy_calls (closing_calls path) = 1" "file_text (closing_calls path) = []"
  "frame_lines (failed_poll ops) = 0" "get_next_calls (failed_poll ops) = 1"
  "destroy_calls (failed_poll ops) = 0" "file_text (failed_poll ops) = []"
  by (simp_all add: opening_calls_def closing_calls_def failed_poll_def frame_lines_def
      get_next_calls_def destroy_calls_def file_text_def)

text \<open>The four ways in which an execute function returns.\<close>

lemma execute_service_cases:
  assumes "execute_service ops configuration path wait count env = Some (r, tr)"
  shows "(\<not> service_create_ok env configuration \<and> r = False
            \<and> tr = [Service_create, Printf (create_failed_msg ops)])
       \<or> (service_create_ok env configuration \<and> \<not> activate_ok env \<and> r = False
            \<and> tr = [Service_create, Get_metadata, Activate,
                     Printf ''acc_service_activate() failed\<newline>'', Destroy])
       \<or> (service_create_ok env configuration \<and> activate_ok env \<and> path \<noteq> None
            \<and> \<not> fopen_ok env \<and> r = False
            \<and> tr = [Service_create, Get_metadata, Activate, Fopen,
                     Printf ''opening file failed\<newline>''])
       \<or> (service_create_ok env configuration \<and> activate_ok env
            \<and> (path = None \<or> fopen_ok env)
            \<and> (\<exists>m. (\<forall>i<m. get_next ops env i \<noteq> None
                         \<and> loop_condition wait count env i (updates_after wait 0 i))
                 \<and> ((r = deactivate_ok env
                       \<and> \<not> loop_condition wait count env m (updates_after wait 0 m)
                       \<and> tr = opening_calls path @ frames_trace ops path env 0 m @ closing_calls path)
                    \<or> (r = False \<and> get_next ops env m = None
                       \<and> loop_condition wait count env m (updates_after wait 0 m)
                       \<and> tr = opening_calls path @ frames_trace ops path env 0 m @ failed_poll ops))))"
proof (cases "service_create_ok env configuration \<and> activate_ok env \<and> (path = None \<or> fopen_ok env)")
  case False
  with assms show ?thesis
    by (auto simp: execute_service_def split: if_splits)
next
  case True
  with assms obtain ok tr' where
    loop: "poll_loop ops path wait count env 0 0 (opening_calls path) = Some (ok, tr')"
    and res: "if ok then r = deactivate_ok env \<and> tr = tr' @ closing_calls path
              else r = False \<and> tr = tr'"
    by (auto simp: execute_service_def opening_calls_def closing_calls_def
        split: if_splits option.splits bool.splits)
  from poll_loop_Some [OF loop] obtain m where
    inv: "\<forall>i. 0 \<le> i \<and> i < m \<longrightarrow> get_next ops env i \<noteq> None
            \<and> loop_condition wait count env i (updates_after wait 0 (i - 0))"
    and tr': "tr' = opening_calls path @ frames_trace ops path env 0 m
                    @ (if ok then [] else failed_poll ops)"
    and fin: "if ok then \<not> loop_condition wait count env m (updates_after wait 0 (m - 0))
              else get_next ops env m = None
                 \<and> loop_condition wait count env m (updates_after wait 0 (m - 0))"
    unfolding loop_post_def by auto
  from inv have inv': "\<forall>i<m. get_next ops env i \<noteq> None
                         \<and> loop_condition wait count env i (updates_after wait 0 i)"
    by simp
  have "\<exists>m. (\<forall>i<m. get_next ops env i \<noteq> None
                         \<and> loop_condition wait count env i (updates_after wait 0 i))
                 \<and> ((r = deactivate_ok env
                       \<and> \<not> loop_condition wait count env m (updates_after wait 0 m)
                       \<and> tr = opening_calls path @ frames_trace ops path env 0 m @ closing_calls path)
                    \<or> (r = False \<and> get_next ops env m = None
                       \<and> loop_condition wait count env m (updates_after wait 0 m)
                       \<and> tr = opening_calls path @ frames_trace ops path env 0 m @ failed_poll ops))"
    using res tr' fin inv' by (intro exI [of _ m]) (cases ok; simp)
  with True show ?thesis by blast
qed

lemma poll_loop_failure_terminates:
  assumes "n \<le> k" and "get_next ops env k = None"
  shows "\<exists>y. poll_loop ops path wait count env n updates tr = Some y"
  using assms(1)
proof (induction "k - n" arbitrary: n updates tr)
  case 0
  then have "n = k" by simp
  with assms(2) show ?case
    by (subst poll_loop.simps) auto
next
  case (Suc d)
  then have d: "d = k - Suc n" and le: "Suc n \<le> k" by simp_all
  show ?case
  proof (cases "get_next ops env n")
    case None
    then show ?thesis by (subst poll_loop.simps) auto
  next
    case (Some data)
    from Suc(1) [OF d le] have
      "\<exists>y. poll_loop ops path wait count env (Suc n)
             (if \<not> wait then updates + 1 else updates)
             (tr @ [Get_next] @ write_frame ops path (data_length env) data) = Some y" .
    with Some show ?thesis by (subst poll_loop.simps) auto
  qed
qed

lemma execute_service_of_loop:
  assumes "\<exists>y. poll_loop ops path wait count env 0 0
                 ([Service_create, Get_metadata, Activate] @ (if path \<noteq> None then [Fopen] else []))
               = Some y"
  shows "\<exists>y. execute_service ops configuration path wait count env = Some y"
  using assms by (auto simp: execute_service_def split: option.splits bool.splits)

lemma execute_service_terminates:
  assumes "\<not> wait \<or> get_next ops env k = None \<or> (interrupted env k \<noteq> 0 \<and> count = 0)
           \<or> \<not> service_create_ok env configuration \<or> \<not> activate_ok env
           \<or> (path \<noteq> None \<and> \<not> fopen_ok env)"
  shows "\<exists>y. execute_service ops configuration path wait count env = Some y"
proof (cases "\<not> service_create_ok env configuration \<or> \<not> activate_ok env
           \<or> (path \<noteq> None \<and> \<not> fopen_ok env)")
  case True
  then show ?thesis by (auto simp: execute_service_def)
next
  case False
  with assms have "\<not> wait \<or> get_next ops env k = None \<or> (interrupted env k \<noteq> 0 \<and> count = 0)"
    by blast
  then consider "\<not> wait" | "get_next ops env k = None"
    | "wait" "interrupted env k \<noteq> 0" "count = 0" by (cases wait) auto
  then show ?thesis
  proof cases
    case 1
    then show ?thesis
      using poll_loop_bounded_terminates [of ops path count env 0 0]
      by (intro execute_service_of_loop) simp
  next
    case 2
    then show ?thesis
      using poll_loop_failure_terminates [of 0 k ops env path wait count 0]
      by (intro execute_service_of_loop) simp
  next
    case 3
    then show ?thesis
      using poll_loop_unbounded_terminates [of 0 k env ops 0 count path]
      by (intro execute_service_of_loop) simp
  qed
qed

lemma get_next_ops [simp]:
  "get_next power_bin_ops = power_bins_get_next"
  "get_next envelope_ops = envelope_get_next"
  "get_next (iq_ops prifloat) = iq_get_next"
  by (simp_all add: power_bin_ops_def envelope_ops_def iq_ops_def)

text \<open>A property of all three execute functions carries over to the call made by main.\<close>

lemma run_service_cases:
  assumes "run_service prifloat input configuration env = Some y"
  obtains
    (power_bin) "service_type input = POWER_BIN"
      "execute_service power_bin_ops configuration (file_path input) (wait_for_interrupt input)
         (update_count input) env = Some y"
  | (envelope) "service_type input = ENVELOPE"
      "execute_service envelope_ops configuration (file_path input) (wait_for_interrupt input)
         (update_count input) env = Some y"
  | (iq) "service_type input = IQ"
      "execute_service (iq_ops prifloat) configuration (file_path input) (wait_for_interrupt input)
         (update_count input) env = Some y"
  using assms
  by (cases "service_type input")
     (auto simp: run_service_def execute_power_bin_def execute_envelope_def execute_iq_def)

lemma execute_service_returns:
  assumes "execute_service ops configuration path wait count env = Some (r, tr)"
  obtains
    (create_failed) "\<not> service_create_ok env configuration" "r = False"
      "tr = [Service_create, Printf (create_failed_msg ops)]"
  | (activate_failed) "service_create_ok env configuration" "\<not> activate_ok env" "r = False"
      "tr = [Service_create, Get_metadata, Activate,
             Printf ''acc_service_activate() failed\<newline>'', Destroy]"
  | (fopen_failed) "service_create_ok env configuration" "activate_ok env" "path \<noteq> None"
      "\<not> fopen_ok env" "r = False"
      "tr = [Service_create, Get_metadata, Activate, Fopen,
             Printf ''opening file failed\<newline>'']"
  | (loop_left) m where "service_create_ok env configuration" "activate_ok env"
      "path = None \<or> fopen_ok env"
      "\<forall>i<m. get_next ops env i \<noteq> None
              \<and> loop_condition wait count env i (updates_after wait 0 i)"
      "r = deactivate_ok env"
      "\<not> loop_condition wait count env m (updates_after wait 0 m)"
      "tr = opening_calls path @ frames_trace ops path env 0 m @ closing_calls path"
  | (poll_failed) m where "service_create_ok env configuration" "activate_ok env"
      "path = None \<or> fopen_ok env"
      "\<forall>i<m. get_next ops env i \<noteq> None
              \<and> loop_condition wait count env i (updates_after wait 0 i)"
      "r = False" "get_next ops env m = None"
      "loop_condition wait count env m (updates_after wait 0 m)"
      "tr = opening_calls path @ frames_trace ops path env 0 m @ failed_poll ops"
  using execute_service_cases [OF assms] by blast

lemma execute_service_failed_poll:
  assumes "execute_service ops configuration path wait count env = Some (r, tr)"
    and "1 \<le> K" and "K \<le> get_next_calls tr" and "get_next ops env (K - 1) = None"
  shows "r = False \<and> frame_lines tr = K - 1 \<and> get_next_calls tr = K"
  using assms(1)
proof (cases rule: execute_service_returns)
  case create_failed
  with assms(2,3) show ?thesis by (simp add: get_next_calls_def)
next
  case activate_failed
  with assms(2,3) show ?thesis by (simp add: get_next_calls_def)
next
  case fopen_failed
  with assms(2,3) show ?thesis by (simp add: get_next_calls_def)
next
  case (loop_left m)
  then have "get_next_calls tr = m" by simp
  with assms(2,3) have "K - 1 < m" by simp
  with loop_left(4) assms(4) show ?thesis by blast
next
  case (poll_failed m)
  then have c: "get_next_calls tr = m + 1" "frame_lines tr = m" by simp_all
  from poll_failed(4) assms(4) have "\<not> K - 1 < m" by blast
  with assms(2,3) c(1) have "K = m + 1" by arith
  with c poll_failed(5) show ?thesis by simp
qed

lemma run_service_failed_poll:
  assumes "run_service prifloat input configuration env = Some (r, tr)"
    and "1 \<le> K" and "K \<le> get_next_calls tr"
    and "get_next_fails (service_type input) env (K - 1)"
  shows "r = False \<and> frame_lines tr = K - 1 \<and> get_next_calls tr = K"
  using assms(1)
proof (cases rule: run_service_cases)
  case power_bin
  with assms(4) have "get_next power_bin_ops env (K - 1) = None" by (simp add: get_next_fails_def)
  from execute_service_failed_poll [OF power_bin(2) assms(2,3) this] show ?thesis .
next
  case envelope
  with assms(4) have "get_next envelope_ops env (K - 1) = None" by (simp add: get_next_fails_def)
  from execute_service_failed_poll [OF envelope(2) assms(2,3) this] show ?thesis .
next
  case iq
  with assms(4) have "get_next (iq_ops prifloat) env (K - 1) = None" by (simp add: get_next_fails_def)
  from execute_service_failed_poll [OF iq(2) assms(2,3) this] show ?thesis .
qed

lemma run_service_terminates:
  assumes "service_type input \<noteq> INVALID_SERVICE"
    and "\<not> wait_for_interrupt input \<or> get_next_fails (service_type input) env k
         \<or> (interrupted env k \<noteq> 0 \<and> update_count input = 0)
         \<or> \<not> service_create_ok env configuration \<or> \<not> activate_ok env
         \<or> (file_path input \<noteq> None \<and> \<not> fopen_ok env)"
  shows "\<exists>y. run_service prifloat input configuration env = Some y"
proof (cases "service_type input")
  case INVALID_SERVICE
  with assms(1) show ?thesis by simp
next
  case POWER_BIN
  with assms(2) show ?thesis
    using execute_service_terminates [of "wait_for_interrupt input" power_bin_ops env k
        "update_count input" configuration "file_path input"]
    by (simp add: run_service_def execute_power_bin_def get_next_fails_def)
next
  case ENVELOPE
  with assms(2) show ?thesis
    using execute_service_terminates [of "wait_for_interrupt input" envelope_ops env k
        "update_count input" configuration "file_path input"]
    by (simp add: run_service_def execute_envelope_def get_next_fails_def)
next
  case IQ
  with assms(2) show ?thesis
    using execute_service_terminates [of "wait_for_interrupt input" "iq_ops prifloat" env k
        "update_count input" configuration "file_path input"]
    by (simp add: run_service_def execute_iq_def get_next_fails_def)
qed

lemma main_terminates:
  assumes "\<And>input tr0 configuration.
     parse_options argv env initialize_input [Signal_install, Hal_init] = (Parse_true input, tr0)
     \<Longrightarrow> \<exists>y. run_service prifloat input configuration env = Some y"
  shows "\<exists>y. main prifloat argv env = Some y"
proof -
  obtain r tr0 where p: "parse_options argv env initialize_input [Signal_install, Hal_init] = (r, tr0)"
    by (cases "parse_options argv env initialize_input [Signal_install, Hal_init]")
  show ?thesis
  proof (cases r)
    case Parse_exit
    with p show ?thesis by (simp add: main_def)
  next
    case (Parse_false input)
    with p show ?thesis by (simp add: main_def)
  next
    case (Parse_true input)
    with p assms have run: "\<exists>y. run_service prifloat input configuration env = Some y"
      for configuration by blast
    have "\<exists>y. main_switch prifloat input env tr = Some y" for tr
    proof (cases "service_type input")
      case INVALID_SERVICE
      then show ?thesis by (simp add: main_switch_def)
    next
      case POWER_BIN
      with run [of "fst (set_up_power_bin input env)"] show ?thesis
        by (cases "set_up_power_bin input env")
           (auto simp: main_switch_def run_service_def split: option.splits)
    next
      case ENVELOPE
      with run [of "fst (set_up_envelope input env)"] show ?thesis
        by (cases "set_up_envelope input env")
           (auto simp: main_switch_def run_service_def split: option.splits)
    next
      case IQ
      obtain c tr_s where su: "set_up_iq input env = (c, tr_s)"
        by (cases "set_up_iq input env")
      from run [of c] IQ obtain service_status tr_e where
        "execute_iq prifloat c (file_path input) (wait_for_interrupt input)
           (update_count input) env = Some (service_status, tr_e)"
        by (auto simp: run_service_def)
      with IQ su show ?thesis by (simp add: main_switch_def)
    qed
    with p Parse_true show ?thesis by (simp add: main_def)
  qed
qed

lemma execute_service_activation_failed:
  assumes "execute_service ops configuration path wait count env = Some (r, tr)"
    and "\<not> activate_ok env"
  shows "r = False \<and> frame_lines tr = 0 \<and> get_next_calls tr = 0
         \<and> (Activate \<in> set tr \<longrightarrow> destroy_calls tr = 1)"
  using assms(1)
proof (cases rule: execute_service_returns)
  case create_failed
  then show ?thesis by (simp add: frame_lines_def get_next_calls_def)
next
  case activate_failed
  then show ?thesis by (simp add: frame_lines_def get_next_calls_def destroy_calls_def)
qed (use assms(2) in simp_all)

lemma run_service_activation_failed:
  assumes "run_service prifloat input configuration env = Some (r, tr)"
    and "\<not> activate_ok env"
  shows "r = False \<and> frame_lines tr = 0 \<and> get_next_calls tr = 0
         \<and> (Activate \<in> set tr \<longrightarrow> destroy_calls tr = 1)"
  using assms(1)
  by (cases rule: run_service_cases) (use assms(2) execute_service_activation_failed in blast)+

lemma execute_service_deactivate:
  assumes "execute_service ops configuration path wait count env = Some (r, tr)"
    and "Deactivate \<in> set tr"
  shows "r = deactivate_ok env"
  using assms(1)
proof (cases rule: execute_service_returns)
  case (poll_failed m)
  with assms(2) frames_trace_events [of Deactivate ops path env 0 m] show ?thesis
    by (auto simp: opening_calls_def failed_poll_def split: if_splits)
qed (use assms(2) in auto)

lemma run_service_deactivate:
  assumes "run_service prifloat input configuration env = Some (r, tr)"
    and "Deactivate \<in> set tr"
  shows "r = deactivate_ok env"
  using assms(1)
  by (cases rule: run_service_cases) (use assms(2) execute_service_deactivate in blast)+

lemma execute_service_zero_count:
  assumes "execute_service ops configuration path False 0 env = Some (r, tr)"
  shows "frame_lines tr = 0 \<and> get_next_calls tr = 0"
  using assms
proof (cases rule: execute_service_returns)
  case (loop_left m)
  have "m = 0"
  proof (rule ccontr)
    assume "m \<noteq> 0"
    with loop_left(4) have "loop_condition False 0 env 0 (updates_after False 0 0)" by blast
    then show False by (simp add: loop_condition_def)
  qed
  with loop_left show ?thesis by simp
next
  case (poll_failed m)
  then show ?thesis by (simp add: loop_condition_def)
qed (simp_all add: frame_lines_def get_next_calls_def)

lemma run_service_zero_count:
  assumes "run_service prifloat input configuration env = Some (r, tr)"
    and "\<not> wait_for_interrupt input" and "update_count input = 0"
  shows "frame_lines tr = 0 \<and> get_next_calls tr = 0"
  using assms(1)
  by (cases rule: run_service_cases) (use assms(2,3) execute_service_zero_count in force)+

lemma poll_loop_bounded_flag_independent:
  assumes "get_next ops env' = get_next ops env" and "data_length env' = data_length env"
  shows "poll_loop ops path False count env' n updates tr
       = poll_loop ops path False count env n updates tr"
proof (induction "unat count - unat updates" arbitrary: n updates tr)
  case 0
  then have "\<not> updates < count" by (simp add: word_less_nat_alt)
  then show ?case
    by (simp add: poll_loop.simps [of ops path False count env' n]
        poll_loop.simps [of ops path False count env n])
next
  case (Suc k)
  then have lt: "updates < count" by (simp add: word_less_nat_alt)
  with Suc(2) have k: "k = unat count - unat (updates + 1)" by (simp add: unat_succ)
  show ?case
  proof (cases "get_next ops env n")
    case None
    with lt assms show ?thesis
      by (simp add: poll_loop.simps [of ops path False count env' n]
          poll_loop.simps [of ops path False count env n])
  next
    case (Some data)
    with lt assms Suc(1) [OF k] show ?thesis
      by (simp add: poll_loop.simps [of ops path False count env' n updates]
          poll_loop.simps [of ops path False count env n updates])
  qed
qed

lemma execute_service_bounded_flag_independent:
  assumes "get_next ops (env\<lparr>interrupted := f\<rparr>) = get_next ops env"
  shows "execute_service ops configuration path False count (env\<lparr>interrupted := f\<rparr>)
       = execute_service ops configuration path False count env"
proof -
  have "poll_loop ops path False count (env\<lparr>interrupted := f\<rparr>) 0 0 tr
      = poll_loop ops path False count env 0 0 tr" for tr
    using assms by (intro poll_loop_bounded_flag_independent) simp_all
  then show ?thesis
    by (auto simp: execute_service_def split: option.splits bool.splits)
qed

subsection \<open>Bounded runs\<close>

lemma poll_loop_bounded_success:
  assumes "\<forall>k\<ge>n. get_next ops env k \<noteq> None"
  shows "poll_loop ops path False count env n updates tr
       = Some (True, tr @ frames_trace ops path env n (n + (unat count - unat updates)))"
  using assms
proof (induction "unat count - unat updates" arbitrary: n updates tr)
  case 0
  then have "\<not> updates < count" by (simp add: word_less_nat_alt)
  with 0(1) [symmetric] show ?case by (subst poll_loop.simps) simp
next
  case (Suc k)
  then have lt: "updates < count" by (simp add: word_less_nat_alt)
  with Suc(2) have k: "k = unat count - unat (updates + 1)" by (simp add: unat_succ)
  from Suc(3) obtain data where data: "get_next ops env n = Some data" by auto
  from Suc(3) have "\<forall>k\<ge>Suc n. get_next ops env k \<noteq> None" by simp
  from Suc(1) [OF k this]
  have "poll_loop ops path False count env (Suc n) (updates + 1)
          (tr @ [Get_next] @ write_frame ops path (data_length env) data)
        = Some (True, (tr @ [Get_next] @ write_frame ops path (data_length env) data)
                      @ frames_trace ops path env (Suc n) (Suc n + k))"
    using k by simp
  with lt data Suc(2) [symmetric] show ?case
    by (subst poll_loop.simps) (simp add: frames_trace_step [of n "Suc (n + k)"])
qed

lemma execute_service_bounded_success:
  assumes "service_create_ok env configuration" and "activate_ok env"
    and "path = None \<or> fopen_ok env" and "\<forall>k. get_next ops env k \<noteq> None"
  shows "execute_service ops configuration path False count env
       = Some (deactivate_ok env,
               opening_calls path @ frames_trace ops path env 0 (unat count) @ closing_calls path)"
proof -
  from assms(4) have "\<forall>k\<ge>0. get_next ops env k \<noteq> None" by simp
  from poll_loop_bounded_success [OF this, of path count 0 "opening_calls path"]
  have "poll_loop ops path False count env 0 0 (opening_calls path)
        = Some (True, opening_calls path @ frames_trace ops path env 0 (unat count))"
    by simp
  with assms(1-3) show ?thesis
    by (auto simp: execute_service_def opening_calls_def closing_calls_def)
qed

lemma execute_service_writes_lines:
  assumes "service_create_ok env configuration" and "activate_ok env"
    and "path = None \<or> fopen_ok env" and "\<forall>k. get_next ops env k \<noteq> None"
  shows "writes_lines (execute_service ops configuration path False count env) env
           (map (\<lambda>k. frame_line (sample_format ops) (data_length env) (the (get_next ops env k)))
              [0..<unat count])"
  unfolding writes_lines_def execute_service_bounded_success [OF assms]
  by (simp add: file_text_frames_trace)

subsection \<open>The text of a line\<close>

lemma dec_string_digits: "set (dec_string n) \<subseteq> set ''0123456789''"
proof (induction n rule: dec_string.induct)
  case (1 n)
  have d: "digit_char k \<in> set ''0123456789''" if "k < 10" for k
    unfolding digit_char_def using that by (intro nth_mem) simp
  show ?case
  proof (cases "n < 10")
    case True
    with d [of n] show ?thesis by (subst dec_string.simps) simp
  next
    case False
    with 1 d [of "n mod 10"] show ?thesis by (subst dec_string.simps) simp
  qed
qed

lemma dec_string_no_separator: "TAB \<notin> set (dec_string n)" "NEWLINE \<notin> set (dec_string n)"
  using dec_string_digits [of n] by (auto simp: TAB_def NEWLINE_def)

lemma envelope_format_eq: "envelope_format x = power_bin_format x"
proof -
  have "\<lfloor>real (unat x) + 1 / 2\<rfloor> = int (unat x)" by linarith
  then show ?thesis by (simp add: envelope_format_def power_bin_format_def)
qed

lemma count_list_absent: "c \<notin> set xs \<Longrightarrow> count_list xs c = 0"
  by (induction xs) auto

lemma TAB_NEWLINE [simp]: "TAB \<noteq> NEWLINE" "NEWLINE \<noteq> TAB"
  by (simp_all add: TAB_def NEWLINE_def)

lemma power_bin_format_separators:
  "count_list (power_bin_format x) TAB = 1" "count_list (power_bin_format x) NEWLINE = 0"
  by (simp_all add: power_bin_format_def count_list_absent dec_string_no_separator)

lemma iq_format_separators:
  assumes "\<forall>a. TAB \<notin> set (prifloat a) \<and> NEWLINE \<notin> set (prifloat a)"
  shows "count_list (iq_format prifloat z) TAB = 2" "count_list (iq_format prifloat z) NEWLINE = 0"
  using assms by (simp_all add: iq_format_def count_list_absent)

lemma frame_line_well_formed:
  assumes "\<And>s. count_list (format s) TAB = nfields" and "\<And>s. count_list (format s) NEWLINE = 0"
  shows "well_formed_line (nfields * len) (frame_line format len data)"
proof -
  have "count_list (concat (map (\<lambda>i. format (data i)) xs)) TAB = nfields * length xs
      \<and> count_list (concat (map (\<lambda>i. format (data i)) xs)) NEWLINE = 0" for xs
    using assms by (induction xs) simp_all
  from this [of "[0..<len]"] show ?thesis
    by (simp add: well_formed_line_def field_count_def frame_line_def)
qed

subsection \<open>Runs that wait for the signal\<close>

lemma sigint_flag_zero: "sigint_flag w b k = 0 \<longleftrightarrow> \<not> (w < k \<or> (w = k \<and> b))"
  by (simp add: sigint_flag_def interrupt_handler_def)

lemma execute_service_sigint:
  assumes "interrupted env = sigint_flag w b"
  shows "stops_after_signal (execute_service ops configuration path True 0 env) w b
           (service_create_ok env configuration \<and> activate_ok env
            \<and> (path = None \<or> fopen_ok env) \<and> (\<forall>k. get_next ops env k \<noteq> None))"
proof -
  have cond: "loop_condition True 0 env i (updates_after True 0 i) \<longleftrightarrow> \<not> (w < i \<or> (w = i \<and> b))"
    for i
    by (simp add: loop_condition_def updates_after_def assms sigint_flag_zero)
  have "interrupted env (Suc w) \<noteq> 0" by (simp add: assms sigint_flag_zero)
  then have "\<exists>y. execute_service ops configuration path True 0 env = Some y"
    by (intro execute_service_terminates [where k = "Suc w"]) simp
  then obtain r tr where ex: "execute_service ops configuration path True 0 env = Some (r, tr)"
    by auto
  from ex have "frame_lines tr \<le> w + 1 \<and> get_next_calls tr \<le> w + 1
        \<and> (b \<longrightarrow> frame_lines tr \<le> w \<and> get_next_calls tr \<le> w)
        \<and> (service_create_ok env configuration \<and> activate_ok env
            \<and> (path = None \<or> fopen_ok env) \<and> (\<forall>k. get_next ops env k \<noteq> None)
           \<longrightarrow> frame_lines tr = (if b then w else w + 1)
               \<and> get_next_calls tr = frame_lines tr)"
  proof (cases rule: execute_service_returns)
    case create_failed
    then show ?thesis by (simp add: frame_lines_def get_next_calls_def)
  next
    case activate_failed
    then show ?thesis by (simp add: frame_lines_def get_next_calls_def)
  next
    case fopen_failed
    then show ?thesis by (auto simp: frame_lines_def get_next_calls_def)
  next
    case (loop_left m)
    from loop_left(7) have c: "frame_lines tr = m" "get_next_calls tr = m" by simp_all
    from loop_left(6) cond [of m] have hi: "w < m \<or> (w = m \<and> b)" by simp
    have lo: "m \<le> w + 1 \<and> (b \<longrightarrow> m \<le> w)"
    proof (rule ccontr)
      assume "\<not> (m \<le> w + 1 \<and> (b \<longrightarrow> m \<le> w))"
      then have "(if b then w else w + 1) < m" by (auto split: if_splits)
      with loop_left(4) cond [of "if b then w else w + 1"] show False
        by (auto split: if_splits)
    qed
    with hi c show ?thesis by auto
  next
    case (poll_failed m)
    from poll_failed(8) have c: "frame_lines tr = m" "get_next_calls tr = m + 1" by simp_all
    from poll_failed(7) cond [of m] have "m \<le> w \<and> (b \<longrightarrow> m < w)" by auto
    with c poll_failed(6) show ?thesis by auto
  qed
  with ex show ?thesis unfolding stops_after_signal_def by blast
qed

lemma parse_options_without_sweep_count:
  "parse_options argv env input tr = (Parse_true input', tr') \<Longrightarrow> \<forall>v. Opt_c v \<notin> set argv \<Longrightarrow>
   update_count input' = update_count input
   \<and> wait_for_interrupt input' = wait_for_interrupt input"
  by (induction argv env input tr rule: parse_options.induct) (auto split: if_splits)

lemma parse_options_sweep_count:
  "parse_options (pre @ Opt_c v # post) env input tr = (Parse_true input', tr') \<Longrightarrow>
   \<forall>u. Opt_c u \<notin> set post \<Longrightarrow>
   update_count input' = word_of_int v \<and> \<not> wait_for_interrupt input'"
proof (induction pre env input tr rule: parse_options.induct)
  case (1 env input tr)
  then have "parse_options post env
               (input\<lparr>update_count := word_of_int v, wait_for_interrupt := False\<rparr>) tr
             = (Parse_true input', tr')"
    by simp
  from parse_options_without_sweep_count [OF this 1(2)] show ?case by simp
qed (auto split: if_splits)

lemma execute_service_runs_until_flag:
  "runs_until_flag (execute_service ops configuration path True 0 env) env
     (service_create_ok env configuration \<and> activate_ok env
      \<and> (path = None \<or> fopen_ok env) \<and> (\<forall>k. get_next ops env k \<noteq> None))"
proof -
  have cond: "loop_condition True 0 env i (updates_after True 0 i) \<longleftrightarrow> interrupted env i = 0"
    for i
    by (simp add: loop_condition_def updates_after_def)
  have A: "(\<forall>i<frame_lines tr. interrupted env i = 0)
          \<and> (Deactivate \<in> set tr \<longrightarrow> interrupted env (frame_lines tr) \<noteq> 0)"
    if "execute_service ops configuration path True 0 env = Some (r, tr)" for r tr
    using that
  proof (cases rule: execute_service_returns)
    case (loop_left m)
    from loop_left(7) have "frame_lines tr = m" by simp
    with loop_left(4,6) cond show ?thesis by simp
  next
    case (poll_failed m)
    from poll_failed(8) have "frame_lines tr = m" by simp
    moreover from poll_failed(8) frames_trace_events [of Deactivate ops path env 0 m]
    have "Deactivate \<notin> set tr"
      by (auto simp: opening_calls_def failed_poll_def split: if_splits)
    ultimately show ?thesis using poll_failed(4) cond by simp
  qed (simp_all add: frame_lines_def)
  have B: "execute_service ops configuration path True 0 env = None"
    if "service_create_ok env configuration" "activate_ok env" "path = None \<or> fopen_ok env"
      "\<forall>k. get_next ops env k \<noteq> None" "\<forall>k. interrupted env k = 0"
  proof -
    from that(4,5) have "\<forall>m\<ge>0. interrupted env m = 0 \<and> get_next ops env m \<noteq> None" by simp
    from poll_loop_diverges [OF this] that(1-3) show ?thesis
      by (auto simp: execute_service_def)
  qed
  show ?thesis unfolding runs_until_flag_def
  proof (rule conjI)
    show "\<forall>r tr. execute_service ops configuration path True 0 env = Some (r, tr) \<longrightarrow>
          (\<forall>i<frame_lines tr. interrupted env i = 0)
          \<and> (Deactivate \<in> set tr \<longrightarrow> interrupted env (frame_lines tr) \<noteq> 0)"
      by (intro allI impI) (rule A)
    show "(service_create_ok env configuration \<and> activate_ok env
      \<and> (path = None \<or> fopen_ok env) \<and> (\<forall>k. get_next ops env k \<noteq> None))
      \<and> (\<forall>k. interrupted env k = 0)
      \<longrightarrow> execute_service ops configuration path True 0 env = None"
      using B by simp
  qed
qed

subsection \<open>Where the handle is destroyed\<close>

text \<open>
  \<open>acc_service_destroy\<close> is called at most once, and it is called exactly on the two paths
  that reach the end of the function: after a failed activation and after a loop that was
  left through its condition.
\<close>

lemma execute_service_destroy_calls:
  assumes "execute_service ops configuration path wait count env = Some (r, tr)"
  shows "destroy_calls tr =
           (if (service_create_ok env configuration \<and> \<not> activate_ok env) \<or> Deactivate \<in> set tr
            then 1 else 0)"
  using assms
proof (cases rule: execute_service_returns)
  case (loop_left m)
  then have "Deactivate \<in> set tr" by (simp add: closing_calls_def)
  with loop_left show ?thesis by simp
next
  case (poll_failed m)
  from poll_failed(8) frames_trace_events [of Deactivate ops path env 0 m]
  have "Deactivate \<notin> set tr"
    by (auto simp: opening_calls_def failed_poll_def split: if_splits)
  with poll_failed show ?thesis by simp
qed (simp_all add: destroy_calls_def)

section \<open>The claims\<close>

subsection \<open>C1: destruction of the service handle\<close>

text \<open>
  C1 says that whenever \<open>acc_service_create\<close> gives a handle, \<open>acc_service_destroy\<close> is
  called on it exactly once before the execute function returns, on every exit path. The
  code does so after a normal end of the loop and after a failed activation, but the two
  \<open>return false\<close> statements inside the activated branch leave the function before the
  call. Here a handle is created and activated, and then (first) the first \<open>get_next\<close>
  fails, (second) the output file cannot be opened: in both runs the function returns
  \<open>false\<close> and the trace holds no \<open>Destroy\<close>.
\<close>

theorem execute_early_return_without_destroy:
  "execute_power_bin (Some []) None False 1
     (counting_provider\<lparr>power_bins_get_next := (\<lambda>n. None)\<rparr>)
   = Some (False, [Service_create, Get_metadata, Activate, Get_next,
                   Printf ''Power bin data not properly retrieved\<newline>'', Fflush_stdout])
   \<and> destroy_calls [Service_create, Get_metadata, Activate, Get_next,
                     Printf ''Power bin data not properly retrieved\<newline>'', Fflush_stdout] = 0
   \<and> execute_envelope (Some []) (Some ''out.txt'') False 1
       (counting_provider\<lparr>fopen_ok := False\<rparr>)
     = Some (False, [Service_create, Get_metadata, Activate, Fopen,
                     Printf ''opening file failed\<newline>''])
   \<and> destroy_calls [Service_create, Get_metadata, Activate, Fopen,
                     Printf ''opening file failed\<newline>''] = 0"
  by (simp add: execute_power_bin_def execute_envelope_def execute_service_def
      counting_provider_def power_bin_ops_def envelope_ops_def poll_loop.simps destroy_calls_def)

subsection \<open>C2: the lines of a bounded run\<close>

text \<open>
  C2: a bounded run (\<open>wait_for_interrupt\<close> false, update count \<open>N\<close>) with a provider whose
  \<open>get_next\<close> always succeeds writes exactly \<open>N\<close> frame lines, each with as many
  tab-terminated fields as the frame has elements, and twice as many for IQ. The run is
  taken from the point where the handle has been created and activated and the output file,
  if any, opened. For each of the three execute functions the text written is the \<open>N\<close> lines
  of the frames \<open>0, ..., N - 1\<close>; and every such line is well formed with \<open>len\<close> fields
  (\<open>2 * len\<close> for IQ, provided the rendering of a float contains no tab and no newline).
\<close>

theorem bounded_run_writes_count_lines:
  assumes "service_create_ok env configuration" and "activate_ok env"
    and "path = None \<or> fopen_ok env"
  shows "((\<forall>k. power_bins_get_next env k \<noteq> None) \<longrightarrow>
            writes_lines (execute_power_bin configuration path False N env) env
              (map (\<lambda>k. frame_line power_bin_format (data_length env)
                          (the (power_bins_get_next env k))) [0..<unat N]))
       \<and> ((\<forall>k. envelope_get_next env k \<noteq> None) \<longrightarrow>
            writes_lines (execute_envelope configuration path False N env) env
              (map (\<lambda>k. frame_line envelope_format (data_length env)
                          (the (envelope_get_next env k))) [0..<unat N]))
       \<and> ((\<forall>k. iq_get_next env k \<noteq> None) \<longrightarrow>
            writes_lines (execute_iq prifloat configuration path False N env) env
              (map (\<lambda>k. frame_line (iq_format prifloat) (data_length env)
                          (the (iq_get_next env k))) [0..<unat N]))
       \<and> well_formed_line len (frame_line power_bin_format len data)
       \<and> well_formed_line len (frame_line envelope_format len data)
       \<and> ((\<forall>a. TAB \<notin> set (prifloat a) \<and> NEWLINE \<notin> set (prifloat a)) \<longrightarrow>
            well_formed_line (2 * len) (frame_line (iq_format prifloat) len iq_data))"
proof (intro conjI impI)
  assume "\<forall>k. power_bins_get_next env k \<noteq> None"
  then have "\<forall>k. get_next power_bin_ops env k \<noteq> None" by simp
  from execute_service_writes_lines [OF assms this, of N]
  show "writes_lines (execute_power_bin configuration path False N env) env
          (map (\<lambda>k. frame_line power_bin_format (data_length env)
                      (the (power_bins_get_next env k))) [0..<unat N])"
    by (simp add: execute_power_bin_def power_bin_ops_def)
next
  assume "\<forall>k. envelope_get_next env k \<noteq> None"
  then have "\<forall>k. get_next envelope_ops env k \<noteq> None" by simp
  from execute_service_writes_lines [OF assms this, of N]
  show "writes_lines (execute_envelope configuration path False N env) env
          (map (\<lambda>k. frame_line envelope_format (data_length env)
                      (the (envelope_get_next env k))) [0..<unat N])"
    by (simp add: execute_envelope_def envelope_ops_def)
next
  assume "\<forall>k. iq_get_next env k \<noteq> None"
  then have "\<forall>k. get_next (iq_ops prifloat) env k \<noteq> None" by simp
  from execute_service_writes_lines [OF assms this, of N]
  show "writes_lines (execute_iq prifloat configuration path False N env) env
          (map (\<lambda>k. frame_line (iq_format prifloat) (data_length env)
                      (the (iq_get_next env k))) [0..<unat N])"
    by (simp add: execute_iq_def iq_ops_def)
next
  from frame_line_well_formed [of power_bin_format 1 len data]
  show "well_formed_line len (frame_line power_bin_format len data)"
    by (simp add: power_bin_format_separators)
next
  from frame_line_well_formed [of envelope_format 1 len data]
  show "well_formed_line len (frame_line envelope_format len data)"
    by (simp add: power_bin_format_separators envelope_format_eq)
next
  assume "\<forall>a. TAB \<notin> set (prifloat a) \<and> NEWLINE \<notin> set (prifloat a)"
  from frame_line_well_formed [of "iq_format prifloat" 2 len iq_data] iq_format_separators [OF this]
  show "well_formed_line (2 * len) (frame_line (iq_format prifloat) len iq_data)"
    by simp
qed


theorem bounded_run_writes_count_lines_witness:
  "(\<exists>tr. execute_power_bin (Some []) None False 2 counting_provider = Some (True, tr)
        \<and> frame_lines tr = 2 \<and> get_next_calls tr = 2
        \<and> file_text tr = [CHR ''1'', TAB, CHR ''2'', TAB, CHR ''3'', TAB, NEWLINE,
                          CHR ''4'', TAB, CHR ''5'', TAB, CHR ''6'', TAB, NEWLINE])
   \<and> (\<exists>tr. execute_envelope (Some []) None False 2 counting_provider = Some (True, tr)
        \<and> frame_lines tr = 2 \<and> get_next_calls tr = 2
        \<and> file_text tr = [CHR ''1'', TAB, CHR ''2'', TAB, CHR ''3'', TAB, NEWLINE,
                          CHR ''4'', TAB, CHR ''5'', TAB, CHR ''6'', TAB, NEWLINE])
   \<and> (\<exists>tr. execute_iq integer_part (Some []) None False 2 counting_provider = Some (True, tr)
        \<and> frame_lines tr = 2 \<and> get_next_calls tr = 2
        \<and> file_text tr = [CHR ''1'', TAB, CHR ''0'', TAB, CHR ''2'', TAB, CHR ''0'', TAB,
                          CHR ''3'', TAB, CHR ''0'', TAB, NEWLINE,
                          CHR ''4'', TAB, CHR ''0'', TAB, CHR ''5'', TAB, CHR ''0'', TAB,
                          CHR ''6'', TAB, CHR ''0'', TAB, NEWLINE])
   \<and> well_formed_line 3 [CHR ''1'', TAB, CHR ''2'', TAB, CHR ''3'', TAB, NEWLINE]
   \<and> well_formed_line (2 * 3) [CHR ''1'', TAB, CHR ''0'', TAB, CHR ''2'', TAB, CHR ''0'', TAB,
                                CHR ''3'', TAB, CHR ''0'', TAB, NEWLINE]"
proof -
  have pre: "service_create_ok counting_provider (Some [])" "activate_ok counting_provider"
    "None = None \<or> fopen_ok counting_provider"
    by (simp_all add: counting_provider_def)
  have ok: "\<forall>k. power_bins_get_next counting_provider k \<noteq> None"
    "\<forall>k. envelope_get_next counting_provider k \<noteq> None"
    "\<forall>k. iq_get_next counting_provider k \<noteq> None"
    by (simp_all add: counting_provider_def)
  have float: "\<forall>a. TAB \<notin> set (integer_part a) \<and> NEWLINE \<notin> set (integer_part a)"
    by (simp add: integer_part_def dec_string_no_separator)
  have d: "deactivate_ok counting_provider" by (simp add: counting_provider_def)
  have l1: "map (\<lambda>k. frame_line power_bin_format (data_length counting_provider)
                          (the (power_bins_get_next counting_provider k))) [0..<unat (2 :: 16 word)]
     = [ [CHR ''1'', TAB, CHR ''2'', TAB, CHR ''3'', TAB, NEWLINE],
        [CHR ''4'', TAB, CHR ''5'', TAB, CHR ''6'', TAB, NEWLINE]]"
    by code_simp
  have l2: "map (\<lambda>k. frame_line envelope_format (data_length counting_provider)
                          (the (envelope_get_next counting_provider k))) [0..<unat (2 :: 16 word)]
     = [ [CHR ''1'', TAB, CHR ''2'', TAB, CHR ''3'', TAB, NEWLINE],
        [CHR ''4'', TAB, CHR ''5'', TAB, CHR ''6'', TAB, NEWLINE]]"
    by (simp only: envelope_format_eq [abs_def]) code_simp
  have l3: "map (\<lambda>k. frame_line (iq_format integer_part) (data_length counting_provider)
                          (the (iq_get_next counting_provider k))) [0..<unat (2 :: 16 word)]
     = [ [CHR ''1'', TAB, CHR ''0'', TAB, CHR ''2'', TAB, CHR ''0'', TAB,
                          CHR ''3'', TAB, CHR ''0'', TAB, NEWLINE],
        [CHR ''4'', TAB, CHR ''0'', TAB, CHR ''5'', TAB, CHR ''0'', TAB,
                          CHR ''6'', TAB, CHR ''0'', TAB, NEWLINE]]"
    by code_simp
  have f1: "frame_line power_bin_format 3 (\<lambda>index. of_nat (index + 1))
            = [CHR ''1'', TAB, CHR ''2'', TAB, CHR ''3'', TAB, NEWLINE]"
    by code_simp
  have f3: "frame_line (iq_format integer_part) 3 (\<lambda>index. Complex (real (index + 1)) 0)
            = [CHR ''1'', TAB, CHR ''0'', TAB, CHR ''2'', TAB, CHR ''0'', TAB,
                          CHR ''3'', TAB, CHR ''0'', TAB, NEWLINE]"
    by code_simp
  note T = bounded_run_writes_count_lines [OF pre, where prifloat = integer_part and N = 2
      and len = 3 and data = "\<lambda>index. of_nat (index + 1)"
      and iq_data = "\<lambda>index. Complex (real (index + 1)) 0"]
  from T ok(1) have "writes_lines (execute_power_bin (Some []) None False 2 counting_provider)
      counting_provider
      (map (\<lambda>k. frame_line power_bin_format (data_length counting_provider)
                          (the (power_bins_get_next counting_provider k))) [0..<unat (2 :: 16 word)])"
    by blast
  then have w1: "\<exists>tr. execute_power_bin (Some []) None False 2 counting_provider = Some (True, tr)
        \<and> frame_lines tr = 2 \<and> get_next_calls tr = 2
        \<and> file_text tr = [CHR ''1'', TAB, CHR ''2'', TAB, CHR ''3'', TAB, NEWLINE,
                          CHR ''4'', TAB, CHR ''5'', TAB, CHR ''6'', TAB, NEWLINE]"
    unfolding writes_lines_def l1 by (simp add: d numeral_2_eq_2)
  from T ok(2) have "writes_lines (execute_envelope (Some []) None False 2 counting_provider)
      counting_provider
      (map (\<lambda>k. frame_line envelope_format (data_length counting_provider)
                          (the (envelope_get_next counting_provider k))) [0..<unat (2 :: 16 word)])"
    by blast
  then have w2: "\<exists>tr. execute_envelope (Some []) None False 2 counting_provider = Some (True, tr)
        \<and> frame_lines tr = 2 \<and> get_next_calls tr = 2
        \<and> file_text tr = [CHR ''1'', TAB, CHR ''2'', TAB, CHR ''3'', TAB, NEWLINE,
                          CHR ''4'', TAB, CHR ''5'', TAB, CHR ''6'', TAB, NEWLINE]"
    unfolding writes_lines_def l2 by (simp add: d numeral_2_eq_2)
  from T ok(3) have "writes_lines (execute_iq integer_part (Some []) None False 2 counting_provider)
      counting_provider
      (map (\<lambda>k. frame_line (iq_format integer_part) (data_length counting_provider)
                          (the (iq_get_next counting_provider k))) [0..<unat (2 :: 16 word)])"
    by blast
  then have w3: "\<exists>tr. execute_iq integer_part (Some []) None False 2 counting_provider = Some (True, tr)
        \<and> frame_lines tr = 2 \<and> get_next_calls tr = 2
        \<and> file_text tr = [CHR ''1'', TAB, CHR ''0'', TAB, CHR ''2'', TAB, CHR ''0'', TAB,
                          CHR ''3'', TAB, CHR ''0'', TAB, NEWLINE,
                          CHR ''4'', TAB, CHR ''0'', TAB, CHR ''5'', TAB, CHR ''0'', TAB,
                          CHR ''6'', TAB, CHR ''0'', TAB, NEWLINE]"
    unfolding writes_lines_def l3 by (simp add: d numeral_2_eq_2)
  from T have "well_formed_line 3 (frame_line power_bin_format 3 (\<lambda>index. of_nat (index + 1)))"
    by blast
  then have w4: "well_formed_line 3 [CHR ''1'', TAB, CHR ''2'', TAB, CHR ''3'', TAB, NEWLINE]"
    unfolding f1 .
  from T float
  have "well_formed_line (2 * 3)
          (frame_line (iq_format integer_part) 3 (\<lambda>index. Complex (real (index + 1)) 0))"
    by blast
  then have w5: "well_formed_line (2 * 3)
      [CHR ''1'', TAB, CHR ''0'', TAB, CHR ''2'', TAB, CHR ''0'', TAB,
       CHR ''3'', TAB, CHR ''0'', TAB, NEWLINE]"
    unfolding f3 .
  from w1 w2 w3 w4 w5 show ?thesis by blast
qed

subsection \<open>C3: a configuration builder that returns \<open>NULL\<close>\<close>

text \<open>
  C3 says that in every mode a \<open>NULL\<close> from the configuration builder ends the run with a
  failure status and without any further call of the provider. The power-bin and envelope
  cases of \<open>main\<close> return at once; the IQ case lacks the \<open>return\<close> and calls \<open>execute_iq\<close>
  with the \<open>NULL\<close> pointer, so \<open>acc_service_create\<close> is called. In the first run below
  the provider refuses the \<open>NULL\<close> configuration; in the second it accepts it, and the
  run polls, writes a frame and ends with \<open>EXIT_SUCCESS\<close>. The third run is the power-bin
  case, which stops after the builder.
\<close>

theorem main_iq_null_configuration_reaches_create:
  "main integer_part [Opt_t 2, Opt_c 1] (counting_provider\<lparr>configuration_create_ok := False\<rparr>)
   = Some (EXIT_FAILURE,
       [Signal_install, Hal_init, Hal_get_implementation, Rss_activate,
        Configuration_create IQ,
        Printf ''acc_service_iq_configuration_create() failed\<newline>'',
        Service_create, Printf ''acc_service_create failed\<newline>'',
        Printf ''execute_iq() failed\<newline>''])
   \<and> main integer_part [Opt_t 2, Opt_c 1]
       (counting_provider\<lparr>configuration_create_ok := False,
                           service_create_ok := (\<lambda>configuration. True)\<rparr>)
     = Some (EXIT_SUCCESS,
       [Signal_install, Hal_init, Hal_get_implementation, Rss_activate,
        Configuration_create IQ,
        Printf ''acc_service_iq_configuration_create() failed\<newline>'',
        Service_create, Get_metadata, Activate, Get_next,
        Write_sample [CHR ''1'', TAB, CHR ''0'', TAB],
        Write_sample [CHR ''2'', TAB, CHR ''0'', TAB],
        Write_sample [CHR ''3'', TAB, CHR ''0'', TAB], Write_newline,
        Fflush_stdout, Deactivate, Destroy, Configuration_destroy IQ,
        Rss_deactivate])
   \<and> main integer_part [Opt_t 0, Opt_c 1] (counting_provider\<lparr>configuration_create_ok := False\<rparr>)
     = Some (EXIT_FAILURE,
       [Signal_install, Hal_init, Hal_get_implementation, Rss_activate,
        Configuration_create POWER_BIN,
        Printf ''acc_service_power_bin_configuration_create() failed\<newline>''])"
  by code_simp

subsection \<open>C4: a failed \<open>get_next\<close>\<close>

text \<open>
  C4: if the \<open>K\<close>-th call of \<open>get_next\<close> fails (\<open>K \<ge> 1\<close>), then exactly \<open>K - 1\<close> frame lines
  have been written when the run ends, the loop is not entered again, and the process exits
  with a failure status. Here \<open>get_next_fails\<close> says that the \<open>get_next\<close> function of the
  selected service fails at its \<open>K\<close>-th call. The run then always ends; and if it got as far
  as making that call (\<open>K \<le> get_next_calls tr\<close>), it made no later one, wrote \<open>K - 1\<close> lines
  and exits with \<open>EXIT_FAILURE\<close>.
\<close>

theorem failed_poll_ends_run:
  assumes "parse_options argv env initialize_input [Signal_install, Hal_init]
           = (Parse_true input, tr0)"
    and "1 \<le> K"
    and "get_next_fails (service_type input) env (K - 1)"
  shows "\<exists>status tr. main prifloat argv env = Some (status, tr)
           \<and> (K \<le> get_next_calls tr \<longrightarrow>
                status = EXIT_FAILURE \<and> frame_lines tr = K - 1 \<and> get_next_calls tr = K)"
proof -
  have "\<exists>y. main prifloat argv env = Some y"
  proof (rule main_terminates)
    fix input' tr0' configuration
    assume "parse_options argv env initialize_input [Signal_install, Hal_init]
            = (Parse_true input', tr0')"
    with assms(1) have "input' = input" by simp
    moreover from parse_options_service_type [OF assms(1)]
    have "service_type input \<noteq> INVALID_SERVICE" .
    ultimately show "\<exists>y. run_service prifloat input' configuration env = Some y"
      using assms(3) run_service_terminates [of input env "K - 1" configuration prifloat]
      by simp
  qed
  then obtain status tr where m: "main prifloat argv env = Some (status, tr)" by auto
  have "status = EXIT_FAILURE \<and> frame_lines tr = K - 1 \<and> get_next_calls tr = K"
    if K: "K \<le> get_next_calls tr"
    using main_Some_cases [OF m]
  proof (elim disjE exE conjE)
    assume "list_all is_front_end tr"
    from front_end_observations(2) [OF this] K assms(2) show ?thesis by simp
  next
    fix input' tr0' configuration service_status tr_e pre post
    assume p: "parse_options argv env initialize_input [Signal_install, Hal_init]
               = (Parse_true input', tr0')"
      and run: "run_service prifloat input' configuration env = Some (service_status, tr_e)"
      and tr: "tr = pre @ tr_e @ post"
      and fe: "list_all is_front_end pre" "list_all is_front_end post"
      and st: "status = status_of service_status"
    from p assms(1) have [simp]: "input' = input" by simp
    from tr fe have obs: "get_next_calls tr = get_next_calls tr_e"
      "frame_lines tr = frame_lines tr_e"
      by (simp_all add: front_end_observations)
    from run_service_failed_poll [of prifloat input configuration env service_status tr_e K]
      run K obs assms(2,3) st
    show ?thesis by (simp add: status_of_def)
  qed
  with m show ?thesis by blast
qed

theorem failed_poll_ends_run_witness:
  "parse_options [Opt_t 0] (failing_after 2) initialize_input [Signal_install, Hal_init]
     = (Parse_true (initialize_input\<lparr>service_type := POWER_BIN\<rparr>), [Signal_install, Hal_init])
   \<and> (1::nat) \<le> 3
   \<and> get_next_fails (service_type (initialize_input\<lparr>service_type := POWER_BIN\<rparr>))
        (failing_after 2) (3 - 1)
   \<and> (\<exists>status tr. main integer_part [Opt_t 0] (failing_after 2) = Some (status, tr)
         \<and> 3 \<le> get_next_calls tr
         \<and> status = EXIT_FAILURE \<and> frame_lines tr = 3 - 1 \<and> get_next_calls tr = 3)"
proof -
  have p: "parse_options [Opt_t 0] (failing_after 2) initialize_input [Signal_install, Hal_init]
     = (Parse_true (initialize_input\<lparr>service_type := POWER_BIN\<rparr>), [Signal_install, Hal_init])"
    by (simp add: initialize_input_def)
  have k: "(1::nat) \<le> 3" by simp
  have f: "get_next_fails (service_type (initialize_input\<lparr>service_type := POWER_BIN\<rparr>))
        (failing_after 2) (3 - 1)"
    by (simp add: get_next_fails_def failing_after_def)
  from failed_poll_ends_run [OF p k f, of integer_part]
  obtain status tr where m: "main integer_part [Opt_t 0] (failing_after 2) = Some (status, tr)"
    and imp: "3 \<le> get_next_calls tr \<longrightarrow>
                status = EXIT_FAILURE \<and> frame_lines tr = 3 - 1 \<and> get_next_calls tr = 3"
    by blast
  have "map_option (get_next_calls \<circ> snd) (main integer_part [Opt_t 0] (failing_after 2))
        = Some 3"
    by code_simp
  with m have "3 \<le> get_next_calls tr" by simp
  with m imp p k f show ?thesis by blast
qed

subsection \<open>C5: update count \<open>0\<close>\<close>

text \<open>
  C5 says that every run whose update count is \<open>0\<close> is unbounded and stops only when the
  cancellation flag is set. As stated this fails: the sweep-count option with the value \<open>0\<close>
  leaves the update count \<open>0\<close> but clears \<open>wait_for_interrupt\<close>, and the run ends at once,
  without a single \<open>get_next\<close>, although the flag is never set.
\<close>

theorem sweep_count_zero_is_not_unbounded:
  "parse_options [Opt_t 0, Opt_c 0] counting_provider initialize_input [Signal_install, Hal_init]
     = (Parse_true (initialize_input\<lparr>service_type := POWER_BIN, update_count := 0,
                                      wait_for_interrupt := False\<rparr>),
        [Signal_install, Hal_init])
   \<and> interrupted counting_provider = (\<lambda>n. 0)
   \<and> main integer_part [Opt_t 0, Opt_c 0] counting_provider
     = Some (EXIT_SUCCESS,
        [Signal_install, Hal_init, Hal_get_implementation, Rss_activate,
         Configuration_create POWER_BIN,
         Configuration_set (Requested_bin_count_set 10),
         Configuration_set (Requested_start_set (7 / 100)),
         Configuration_set (Requested_length_set (43 / 100)),
         Configuration_set (Repetition_mode_streaming_set 10),
         Configuration_set (Sensor_set 1), Service_create, Get_metadata,
         Activate, Deactivate, Destroy, Configuration_destroy POWER_BIN,
         Rss_deactivate])"
proof (intro conjI)
  show "parse_options [Opt_t 0, Opt_c 0] counting_provider initialize_input [Signal_install, Hal_init]
     = (Parse_true (initialize_input\<lparr>service_type := POWER_BIN, update_count := 0,
                                      wait_for_interrupt := False\<rparr>),
        [Signal_install, Hal_init])"
    by (simp add: initialize_input_def)
  show "interrupted counting_provider = (\<lambda>n. 0)"
    by (simp add: counting_provider_def)
  show "main integer_part [Opt_t 0, Opt_c 0] counting_provider
     = Some (EXIT_SUCCESS,
        [Signal_install, Hal_init, Hal_get_implementation, Rss_activate,
         Configuration_create POWER_BIN,
         Configuration_set (Requested_bin_count_set 10),
         Configuration_set (Requested_start_set (7 / 100)),
         Configuration_set (Requested_length_set (43 / 100)),
         Configuration_set (Repetition_mode_streaming_set 10),
         Configuration_set (Sensor_set 1), Service_create, Get_metadata,
         Activate, Deactivate, Destroy, Configuration_destroy POWER_BIN,
         Rss_deactivate])"
    by code_simp
qed

text \<open>
  C5 as amended: when the sweep-count option is not given, the update count keeps its
  default \<open>0\<close> and \<open>wait_for_interrupt\<close> its default \<open>true\<close>, and a run with these arguments is
  unbounded: the loop goes on as long as the flag reads \<open>0\<close> and each \<open>get_next\<close> succeeds, it
  is left through its condition only when the flag is read as set, and the counter never
  stops it, so that without a signal and without a failure the run never ends.
\<close>

theorem default_run_is_unbounded:
  "(parse_options argv env initialize_input tr0 = (Parse_true input, tr1)
      \<and> (\<forall>v. Opt_c v \<notin> set argv)
    \<longrightarrow> update_count input = 0 \<and> wait_for_interrupt input)
   \<and> runs_until_flag (execute_power_bin configuration path True 0 env) env
       (service_create_ok env configuration \<and> activate_ok env
        \<and> (path = None \<or> fopen_ok env) \<and> (\<forall>k. power_bins_get_next env k \<noteq> None))
   \<and> runs_until_flag (execute_envelope configuration path True 0 env) env
       (service_create_ok env configuration \<and> activate_ok env
        \<and> (path = None \<or> fopen_ok env) \<and> (\<forall>k. envelope_get_next env k \<noteq> None))
   \<and> runs_until_flag (execute_iq prifloat configuration path True 0 env) env
       (service_create_ok env configuration \<and> activate_ok env
        \<and> (path = None \<or> fopen_ok env) \<and> (\<forall>k. iq_get_next env k \<noteq> None))"
proof -
  have "update_count input = 0 \<and> wait_for_interrupt input"
    if "parse_options argv env initialize_input tr0 = (Parse_true input, tr1)"
      "\<forall>v. Opt_c v \<notin> set argv"
    using parse_options_without_sweep_count [OF that]
    by (simp add: initialize_input_def DEFAULT_UPDATE_COUNT_def DEFAULT_WAIT_FOR_INTERRUPT_def)
  then show ?thesis
    using execute_service_runs_until_flag [of power_bin_ops configuration path env]
      execute_service_runs_until_flag [of envelope_ops configuration path env]
      execute_service_runs_until_flag [of "iq_ops prifloat" configuration path env]
    by (simp add: execute_power_bin_def execute_envelope_def execute_iq_def)
qed

theorem default_run_is_unbounded_witness:
  "parse_options [Opt_t 0] counting_provider initialize_input [Signal_install, Hal_init]
     = (Parse_true (initialize_input\<lparr>service_type := POWER_BIN\<rparr>), [Signal_install, Hal_init])
   \<and> update_count (initialize_input\<lparr>service_type := POWER_BIN\<rparr>) = 0
   \<and> wait_for_interrupt (initialize_input\<lparr>service_type := POWER_BIN\<rparr>)
   \<and> execute_power_bin (Some []) None True 0 counting_provider = None
   \<and> execute_power_bin (Some []) None True 0 (counting_provider\<lparr>interrupted := sigint_flag 1 True\<rparr>)
     = Some (True,
         [Service_create, Get_metadata, Activate,
          Get_next, Write_sample [CHR ''1'', TAB], Write_sample [CHR ''2'', TAB],
          Write_sample [CHR ''3'', TAB], Write_newline, Fflush_stdout,
          Deactivate, Destroy])
   \<and> interrupted (counting_provider\<lparr>interrupted := sigint_flag 1 True\<rparr>) 0 = 0
   \<and> interrupted (counting_provider\<lparr>interrupted := sigint_flag 1 True\<rparr>) 1 \<noteq> 0"
proof -
  let ?tr = "[Service_create, Get_metadata, Activate,
          Get_next, Write_sample [CHR ''1'', TAB], Write_sample [CHR ''2'', TAB],
          Write_sample [CHR ''3'', TAB], Write_newline, Fflush_stdout,
          Deactivate, Destroy]"
  have p: "parse_options [Opt_t 0] counting_provider initialize_input [Signal_install, Hal_init]
     = (Parse_true (initialize_input\<lparr>service_type := POWER_BIN\<rparr>), [Signal_install, Hal_init])"
    by (simp add: initialize_input_def)
  have n: "\<forall>v. Opt_c v \<notin> set [Opt_t 0]" by simp
  have ok: "service_create_ok counting_provider (Some []) \<and> activate_ok counting_provider
        \<and> (None = None \<or> fopen_ok counting_provider)
        \<and> (\<forall>k. power_bins_get_next counting_provider k \<noteq> None)"
    "\<forall>k. interrupted counting_provider k = 0"
    by (simp_all add: counting_provider_def)
  note T = default_run_is_unbounded [of "[Opt_t 0]" counting_provider "[Signal_install, Hal_init]"
      "initialize_input\<lparr>service_type := POWER_BIN\<rparr>" "[Signal_install, Hal_init]"
      "Some []" None integer_part]
  from T [THEN conjunct1] p n
  have a: "update_count (initialize_input\<lparr>service_type := POWER_BIN\<rparr>) = 0
      \<and> wait_for_interrupt (initialize_input\<lparr>service_type := POWER_BIN\<rparr>)"
    by simp
  from T [THEN conjunct2, THEN conjunct1]
  have "service_create_ok counting_provider (Some []) \<and> activate_ok counting_provider
        \<and> (None = None \<or> fopen_ok counting_provider)
        \<and> (\<forall>k. power_bins_get_next counting_provider k \<noteq> None)
        \<and> (\<forall>k. interrupted counting_provider k = 0)
        \<longrightarrow> execute_power_bin (Some []) None True 0 counting_provider = None"
    unfolding runs_until_flag_def by simp
  with ok have b: "execute_power_bin (Some []) None True 0 counting_provider = None"
    by simp
  have c: "execute_power_bin (Some []) None True 0
             (counting_provider\<lparr>interrupted := sigint_flag 1 True\<rparr>) = Some (True, ?tr)"
    by code_simp
  have d: "interrupted (counting_provider\<lparr>interrupted := sigint_flag 1 True\<rparr>) 0 = 0"
    "interrupted (counting_provider\<lparr>interrupted := sigint_flag 1 True\<rparr>) 1 \<noteq> 0"
    by (simp_all add: sigint_flag_def interrupt_handler_def)
  from p a b c d show ?thesis by blast
qed

subsection \<open>C6: a failed activation\<close>

text \<open>
  C6: in every run in which \<open>acc_service_activate\<close> fails, no frame line is written, the
  handle is still destroyed, and the process exits with a failure status. With a provider
  whose activation fails, \<open>main\<close> always returns \<open>EXIT_FAILURE\<close>, no \<open>get_next\<close> is called
  and no line is written; and when the run got as far as calling \<open>acc_service_activate\<close>,
  \<open>acc_service_destroy\<close> is called exactly once.
\<close>

theorem activation_failure_ends_run:
  assumes "\<not> activate_ok env"
  shows "\<exists>status tr. main prifloat argv env = Some (status, tr)
           \<and> status = EXIT_FAILURE \<and> frame_lines tr = 0 \<and> get_next_calls tr = 0
           \<and> (Activate \<in> set tr \<longrightarrow> destroy_calls tr = 1)"
proof -
  have "\<exists>y. main prifloat argv env = Some y"
  proof (rule main_terminates)
    fix input tr0 configuration
    assume "parse_options argv env initialize_input [Signal_install, Hal_init]
            = (Parse_true input, tr0)"
    from parse_options_service_type [OF this] assms
    show "\<exists>y. run_service prifloat input configuration env = Some y"
      by (intro run_service_terminates [where k = 0]) simp_all
  qed
  then obtain status tr where m: "main prifloat argv env = Some (status, tr)" by auto
  have "status = EXIT_FAILURE \<and> frame_lines tr = 0 \<and> get_next_calls tr = 0
           \<and> (Activate \<in> set tr \<longrightarrow> destroy_calls tr = 1)"
    using main_Some_cases [OF m]
  proof (elim disjE exE conjE)
    assume "status = EXIT_FAILURE" "list_all is_front_end tr"
    then show ?thesis by (simp add: front_end_observations)
  next
    fix input tr0 configuration service_status tr_e pre post
    assume run: "run_service prifloat input configuration env = Some (service_status, tr_e)"
      and tr: "tr = pre @ tr_e @ post"
      and fe: "list_all is_front_end pre" "list_all is_front_end post"
      and st: "status = status_of service_status"
    from run_service_activation_failed [OF run assms] tr fe st
    show ?thesis by (simp add: front_end_observations status_of_def)
  qed
  with m show ?thesis by blast
qed

theorem activation_failure_ends_run_witness:
  "\<not> activate_ok (counting_provider\<lparr>activate_ok := False\<rparr>)
   \<and> (\<exists>status tr.
        main integer_part [Opt_t 1, Opt_c 5] (counting_provider\<lparr>activate_ok := False\<rparr>)
          = Some (status, tr)
        \<and> status = EXIT_FAILURE \<and> frame_lines tr = 0 \<and> get_next_calls tr = 0
        \<and> Activate \<in> set tr \<and> destroy_calls tr = 1)"
proof -
  have a: "\<not> activate_ok (counting_provider\<lparr>activate_ok := False\<rparr>)" by simp
  from activation_failure_ends_run [OF a, of integer_part "[Opt_t 1, Opt_c 5]"]
  obtain status tr where
    m: "main integer_part [Opt_t 1, Opt_c 5] (counting_provider\<lparr>activate_ok := False\<rparr>)
          = Some (status, tr)"
    and c: "status = EXIT_FAILURE" "frame_lines tr = 0" "get_next_calls tr = 0"
      "Activate \<in> set tr \<longrightarrow> destroy_calls tr = 1"
    by blast
  have "map_option (\<lambda>y. Activate \<in> set (snd y))
          (main integer_part [Opt_t 1, Opt_c 5] (counting_provider\<lparr>activate_ok := False\<rparr>))
        = Some True"
    by code_simp
  with m have "Activate \<in> set tr" by simp
  with a m c show ?thesis by blast
qed

subsection \<open>C7: cancellation of an unbounded run\<close>

text \<open>
  C7: in an unbounded run the cancellation flag is looked at only between iterations, so
  an iteration that is under way when the flag is set is completed, at most one frame line
  is written after the flag is set, and the loop is left before the next \<open>get_next\<close>. The
  run is one with the default arguments \<open>wait_for_interrupt = true\<close>, \<open>update_count = 0\<close>,
  and \<open>sigint_flag w seen_at_once\<close> gives the values of \<open>interrupted\<close> when the handler runs
  at a moment when \<open>w\<close> frame lines are complete.
\<close>

theorem cancellation_between_iterations:
  assumes "interrupted env = sigint_flag w seen_at_once"
  shows "stops_after_signal (execute_power_bin configuration path True 0 env) w seen_at_once
           (service_create_ok env configuration \<and> activate_ok env
            \<and> (path = None \<or> fopen_ok env) \<and> (\<forall>k. power_bins_get_next env k \<noteq> None))
       \<and> stops_after_signal (execute_envelope configuration path True 0 env) w seen_at_once
           (service_create_ok env configuration \<and> activate_ok env
            \<and> (path = None \<or> fopen_ok env) \<and> (\<forall>k. envelope_get_next env k \<noteq> None))
       \<and> stops_after_signal (execute_iq prifloat configuration path True 0 env) w seen_at_once
           (service_create_ok env configuration \<and> activate_ok env
            \<and> (path = None \<or> fopen_ok env) \<and> (\<forall>k. iq_get_next env k \<noteq> None))"
  using execute_service_sigint [OF assms, of power_bin_ops configuration path]
    execute_service_sigint [OF assms, of envelope_ops configuration path]
    execute_service_sigint [OF assms, of "iq_ops prifloat" configuration path]
  by (simp add: execute_power_bin_def execute_envelope_def execute_iq_def)

theorem cancellation_between_iterations_witness:
  "interrupted (counting_provider\<lparr>interrupted := sigint_flag 1 False\<rparr>) = sigint_flag 1 False
   \<and> (\<exists>r tr. execute_power_bin (Some []) None True 0
                 (counting_provider\<lparr>interrupted := sigint_flag 1 False\<rparr>) = Some (r, tr)
          \<and> frame_lines tr = 1 + 1 \<and> get_next_calls tr = 1 + 1)
   \<and> interrupted (counting_provider\<lparr>interrupted := sigint_flag 1 True\<rparr>) = sigint_flag 1 True
   \<and> (\<exists>r tr. execute_power_bin (Some []) None True 0
                 (counting_provider\<lparr>interrupted := sigint_flag 1 True\<rparr>) = Some (r, tr)
          \<and> frame_lines tr = 1 \<and> get_next_calls tr = 1)"
proof -
  have a: "interrupted (counting_provider\<lparr>interrupted := sigint_flag 1 False\<rparr>) = sigint_flag 1 False"
    and b: "interrupted (counting_provider\<lparr>interrupted := sigint_flag 1 True\<rparr>) = sigint_flag 1 True"
    by simp_all
  have ok: "service_create_ok (counting_provider\<lparr>interrupted := f\<rparr>) (Some [])
      \<and> activate_ok (counting_provider\<lparr>interrupted := f\<rparr>)
      \<and> (None = None \<or> fopen_ok (counting_provider\<lparr>interrupted := f\<rparr>))
      \<and> (\<forall>k. power_bins_get_next (counting_provider\<lparr>interrupted := f\<rparr>) k \<noteq> None)" for f
    by (simp add: counting_provider_def)
  from cancellation_between_iterations [OF a, of "Some []" None integer_part] ok
  have "\<exists>r tr. execute_power_bin (Some []) None True 0
                 (counting_provider\<lparr>interrupted := sigint_flag 1 False\<rparr>) = Some (r, tr)
          \<and> frame_lines tr = 1 + 1 \<and> get_next_calls tr = 1 + 1"
    unfolding stops_after_signal_def by auto
  moreover from cancellation_between_iterations [OF b, of "Some []" None integer_part] ok
  have "\<exists>r tr. execute_power_bin (Some []) None True 0
                 (counting_provider\<lparr>interrupted := sigint_flag 1 True\<rparr>) = Some (r, tr)
          \<and> frame_lines tr = 1 \<and> get_next_calls tr = 1"
    unfolding stops_after_signal_def by auto
  ultimately show ?thesis using a b by blast
qed

subsection \<open>C8: the result of \<open>acc_service_deactivate\<close>\<close>

text \<open>
  C8: in every run that reaches \<open>acc_service_deactivate\<close>, the result of that call is the
  outcome of the run: the process exits with \<open>EXIT_SUCCESS\<close> when it succeeds and with
  \<open>EXIT_FAILURE\<close> when it fails, also after a loop in which every \<open>get_next\<close> succeeded.
\<close>

theorem deactivate_decides_outcome:
  assumes "main prifloat argv env = Some (status, tr)" and "Deactivate \<in> set tr"
  shows "status = (if deactivate_ok env then EXIT_SUCCESS else EXIT_FAILURE)"
  using main_Some_cases [OF assms(1)]
proof (elim disjE exE conjE)
  assume "list_all is_front_end tr"
  from front_end_observations(7) [OF this] assms(2) show ?thesis by simp
next
  fix input tr0 configuration service_status tr_e pre post
  assume run: "run_service prifloat input configuration env = Some (service_status, tr_e)"
    and tr: "tr = pre @ tr_e @ post"
    and fe: "list_all is_front_end pre" "list_all is_front_end post"
    and st: "status = status_of service_status"
  from tr assms(2) front_end_observations(7) [OF fe(1)] front_end_observations(7) [OF fe(2)]
  have "Deactivate \<in> set tr_e" by auto
  from run_service_deactivate [OF run this] st show ?thesis by (simp add: status_of_def)
qed

theorem deactivate_decides_outcome_witness:
  "main integer_part [Opt_t 0, Opt_c 2] (counting_provider\<lparr>deactivate_ok := False\<rparr>)
     = Some (EXIT_FAILURE,
        [Signal_install, Hal_init, Hal_get_implementation, Rss_activate,
         Configuration_create POWER_BIN,
         Configuration_set (Requested_bin_count_set 10),
         Configuration_set (Requested_start_set (7 / 100)),
         Configuration_set (Requested_length_set (43 / 100)),
         Configuration_set (Repetition_mode_streaming_set 10),
         Configuration_set (Sensor_set 1), Service_create, Get_metadata,
         Activate, Get_next, Write_sample [CHR ''1'', TAB],
         Write_sample [CHR ''2'', TAB], Write_sample [CHR ''3'', TAB],
         Write_newline, Fflush_stdout, Get_next,
         Write_sample [CHR ''4'', TAB], Write_sample [CHR ''5'', TAB],
         Write_sample [CHR ''6'', TAB], Write_newline, Fflush_stdout,
         Deactivate, Destroy, Printf ''execute_power_bin() failed\<newline>''])
   \<and> Deactivate \<in> set
        [Signal_install, Hal_init, Hal_get_implementation, Rss_activate,
         Configuration_create POWER_BIN,
         Configuration_set (Requested_bin_count_set 10),
         Configuration_set (Requested_start_set (7 / 100)),
         Configuration_set (Requested_length_set (43 / 100)),
         Configuration_set (Repetition_mode_streaming_set 10),
         Configuration_set (Sensor_set 1), Service_create, Get_metadata,
         Activate, Get_next, Write_sample [CHR ''1'', TAB],
         Write_sample [CHR ''2'', TAB], Write_sample [CHR ''3'', TAB],
         Write_newline, Fflush_stdout, Get_next,
         Write_sample [CHR ''4'', TAB], Write_sample [CHR ''5'', TAB],
         Write_sample [CHR ''6'', TAB], Write_newline, Fflush_stdout,
         Deactivate, Destroy, Printf ''execute_power_bin() failed\<newline>'']
   \<and> EXIT_FAILURE = (if deactivate_ok (counting_provider\<lparr>deactivate_ok := False\<rparr>)
                      then EXIT_SUCCESS else EXIT_FAILURE)"
proof -
  let ?tr = "[Signal_install, Hal_init, Hal_get_implementation, Rss_activate,
         Configuration_create POWER_BIN,
         Configuration_set (Requested_bin_count_set 10),
         Configuration_set (Requested_start_set (7 / 100)),
         Configuration_set (Requested_length_set (43 / 100)),
         Configuration_set (Repetition_mode_streaming_set 10),
         Configuration_set (Sensor_set 1), Service_create, Get_metadata,
         Activate, Get_next, Write_sample [CHR ''1'', TAB],
         Write_sample [CHR ''2'', TAB], Write_sample [CHR ''3'', TAB],
         Write_newline, Fflush_stdout, Get_next,
         Write_sample [CHR ''4'', TAB], Write_sample [CHR ''5'', TAB],
         Write_sample [CHR ''6'', TAB], Write_newline, Fflush_stdout,
         Deactivate, Destroy, Printf ''execute_power_bin() failed\<newline>'']"
  have m: "main integer_part [Opt_t 0, Opt_c 2] (counting_provider\<lparr>deactivate_ok := False\<rparr>)
     = Some (EXIT_FAILURE, ?tr)"
    by code_simp
  have d: "Deactivate \<in> set ?tr" by simp
  from deactivate_decides_outcome [OF m d] m d show ?thesis by simp
qed

subsection \<open>C9: the flag in a bounded run\<close>

text \<open>
  C9: in a bounded run (\<open>wait_for_interrupt\<close> false) with a fixed behaviour of the provider,
  the exit of the loop and the frame lines written do not depend on the cancellation flag.
  Each execute function, called with \<open>wait_for_interrupt = false\<close>, returns the same value
  and makes the same calls whatever values \<open>f\<close> the variable \<open>interrupted\<close> takes.
\<close>

theorem bounded_run_ignores_flag:
  "execute_power_bin configuration path False count (env\<lparr>interrupted := f\<rparr>)
     = execute_power_bin configuration path False count env
   \<and> execute_envelope configuration path False count (env\<lparr>interrupted := f\<rparr>)
     = execute_envelope configuration path False count env
   \<and> execute_iq prifloat configuration path False count (env\<lparr>interrupted := f\<rparr>)
     = execute_iq prifloat configuration path False count env"
  by (simp add: execute_power_bin_def execute_envelope_def execute_iq_def
      execute_service_bounded_flag_independent)

theorem bounded_run_ignores_flag_witness:
  "execute_power_bin (Some []) None False 2 (counting_provider\<lparr>interrupted := (\<lambda>n. 1)\<rparr>)
     = execute_power_bin (Some []) None False 2 counting_provider
   \<and> execute_power_bin (Some []) None False 2 counting_provider
     = Some (True,
         [Service_create, Get_metadata, Activate,
          Get_next, Write_sample [CHR ''1'', TAB], Write_sample [CHR ''2'', TAB],
          Write_sample [CHR ''3'', TAB], Write_newline, Fflush_stdout,
          Get_next, Write_sample [CHR ''4'', TAB], Write_sample [CHR ''5'', TAB],
          Write_sample [CHR ''6'', TAB], Write_newline, Fflush_stdout,
          Deactivate, Destroy])"
proof -
  have "execute_power_bin (Some []) None False 2 counting_provider
     = Some (True,
         [Service_create, Get_metadata, Activate,
          Get_next, Write_sample [CHR ''1'', TAB], Write_sample [CHR ''2'', TAB],
          Write_sample [CHR ''3'', TAB], Write_newline, Fflush_stdout,
          Get_next, Write_sample [CHR ''4'', TAB], Write_sample [CHR ''5'', TAB],
          Write_sample [CHR ''6'', TAB], Write_newline, Fflush_stdout,
          Deactivate, Destroy])"
    by code_simp
  with bounded_run_ignores_flag [where configuration = "Some []" and path = None
      and count = 2 and env = counting_provider and f = "\<lambda>n. 1"]
  show ?thesis by blast
qed

subsection \<open>C10: the width of the update count\<close>

text \<open>
  C10: the update count is a 16-bit unsigned integer, so the value of the sweep-count option
  is taken modulo \<open>2^16\<close>, and the option clears \<open>wait_for_interrupt\<close>; a sweep count of \<open>0\<close> or
  \<open>65536\<close> therefore gives a run that writes no frame and ends at once instead of running
  until a signal. The sweep-count option may stand anywhere on the command line: \<open>v\<close> is
  the \<open>atoi\<close> value of its last occurrence, \<open>pre\<close> the options before it and \<open>post\<close> the
  options after it. When the options are accepted, the update count is \<open>v\<close> modulo \<open>2^16\<close>
  and \<open>wait_for_interrupt\<close> is false; and when \<open>v\<close> is a multiple of \<open>65536\<close>, the run
  always ends, without a \<open>get_next\<close> and without a frame line.
\<close>

theorem sweep_count_modulo_65536:
  assumes "\<forall>u. Opt_c u \<notin> set post"
  shows "(parse_options (pre @ Opt_c v # post) env initialize_input [Signal_install, Hal_init]
            = (Parse_true input, tr0)
          \<longrightarrow> update_count input = word_of_int v
              \<and> unat (update_count input) = nat (v mod 65536)
              \<and> \<not> wait_for_interrupt input)
       \<and> (v mod 65536 = 0 \<longrightarrow>
            (\<exists>status tr. main prifloat (pre @ Opt_c v # post) env = Some (status, tr)
               \<and> frame_lines tr = 0 \<and> get_next_calls tr = 0))"
proof (rule conjI; rule impI)
  assume p: "parse_options (pre @ Opt_c v # post) env initialize_input [Signal_install, Hal_init]
            = (Parse_true input, tr0)"
  from parse_options_sweep_count [OF p assms]
  have uc: "update_count input = word_of_int v" and w: "\<not> wait_for_interrupt input" by simp_all
  have "unat (update_count input) = nat (v mod 65536)"
    by (simp add: uc unsigned_of_int take_bit_eq_mod nat_take_bit_eq)
  with uc w show "update_count input = word_of_int v
              \<and> unat (update_count input) = nat (v mod 65536)
              \<and> \<not> wait_for_interrupt input"
    by simp
next
  assume z: "v mod 65536 = 0"
  have parsed: "\<not> wait_for_interrupt input' \<and> update_count input' = 0"
    if "parse_options (pre @ Opt_c v # post) env initialize_input [Signal_install, Hal_init]
            = (Parse_true input', tr0')" for input' tr0'
  proof -
    from parse_options_sweep_count [OF that assms]
    have uc: "update_count input' = word_of_int v" and w: "\<not> wait_for_interrupt input'"
      by simp_all
    have "unat (update_count input') = nat (v mod 65536)"
      by (simp add: uc unsigned_of_int take_bit_eq_mod nat_take_bit_eq)
    with z have "update_count input' = 0" by (simp add: unat_eq_0)
    with w show ?thesis by simp
  qed
  have "\<exists>y. main prifloat (pre @ Opt_c v # post) env = Some y"
  proof (rule main_terminates)
    fix input' tr0' configuration
    assume p: "parse_options (pre @ Opt_c v # post) env initialize_input
                 [Signal_install, Hal_init] = (Parse_true input', tr0')"
    from parsed [OF p] parse_options_service_type [OF p]
    show "\<exists>y. run_service prifloat input' configuration env = Some y"
      by (intro run_service_terminates [where k = 0]) simp_all
  qed
  then obtain status tr where m: "main prifloat (pre @ Opt_c v # post) env = Some (status, tr)"
    by auto
  have "frame_lines tr = 0 \<and> get_next_calls tr = 0"
    using main_Some_cases [OF m]
  proof (elim disjE exE conjE)
    assume "list_all is_front_end tr"
    then show ?thesis by (simp add: front_end_observations)
  next
    fix input' tr0' configuration service_status tr_e pre' post'
    assume p: "parse_options (pre @ Opt_c v # post) env initialize_input
                 [Signal_install, Hal_init] = (Parse_true input', tr0')"
      and run: "run_service prifloat input' configuration env = Some (service_status, tr_e)"
      and tr: "tr = pre' @ tr_e @ post'"
      and fe: "list_all is_front_end pre'" "list_all is_front_end post'"
    from run_service_zero_count [OF run] parsed [OF p] tr fe show ?thesis
      by (simp add: front_end_observations)
  qed
  with m show "\<exists>status tr. main prifloat (pre @ Opt_c v # post) env = Some (status, tr)
               \<and> frame_lines tr = 0 \<and> get_next_calls tr = 0"
    by blast
qed

theorem sweep_count_modulo_65536_witness:
  "parse_options ([] @ Opt_c 65536 # [Opt_t 0]) counting_provider initialize_input
       [Signal_install, Hal_init]
     = (Parse_true (initialize_input\<lparr>update_count := 0, wait_for_interrupt := False,
                                      service_type := POWER_BIN\<rparr>),
        [Signal_install, Hal_init])
   \<and> update_count (initialize_input\<lparr>update_count := 0, wait_for_interrupt := False,
                                     service_type := POWER_BIN\<rparr>) = word_of_int 65536
   \<and> unat (update_count (initialize_input\<lparr>update_count := 0, wait_for_interrupt := False,
                                           service_type := POWER_BIN\<rparr>))
       = nat (65536 mod 65536)
   \<and> (65536 :: int) mod 65536 = 0
   \<and> (\<exists>status tr. main integer_part ([] @ Opt_c 65536 # [Opt_t 0]) counting_provider
                     = Some (status, tr)
         \<and> frame_lines tr = 0 \<and> get_next_calls tr = 0)
   \<and> (\<exists>status tr. main integer_part ([Opt_t 2, Opt_c 7] @ Opt_c 0 # [Opt_v]) counting_provider
                     = Some (status, tr)
         \<and> frame_lines tr = 0 \<and> get_next_calls tr = 0)"
proof -
  have p: "parse_options ([] @ Opt_c 65536 # [Opt_t 0]) counting_provider initialize_input
       [Signal_install, Hal_init]
     = (Parse_true (initialize_input\<lparr>update_count := 0, wait_for_interrupt := False,
                                      service_type := POWER_BIN\<rparr>),
        [Signal_install, Hal_init])"
    by (simp add: initialize_input_def)
  have n: "\<forall>u. Opt_c u \<notin> set [Opt_t 0]" "\<forall>u. Opt_c u \<notin> set [Opt_v]" by simp_all
  have z: "(65536 :: int) mod 65536 = 0" "(0 :: int) mod 65536 = 0" by simp_all
  note T = sweep_count_modulo_65536 [OF n(1), of "[]" 65536 counting_provider
      "initialize_input\<lparr>update_count := 0, wait_for_interrupt := False,
                         service_type := POWER_BIN\<rparr>" "[Signal_install, Hal_init]" integer_part]
  note U = sweep_count_modulo_65536 [OF n(2), where pre = "[Opt_t 2, Opt_c 7]" and v = 0
      and env = counting_provider and prifloat = integer_part]
  from T [THEN conjunct1] p
  have a: "update_count (initialize_input\<lparr>update_count := 0, wait_for_interrupt := False,
                                     service_type := POWER_BIN\<rparr>) = word_of_int 65536
     \<and> unat (update_count (initialize_input\<lparr>update_count := 0, wait_for_interrupt := False,
                                           service_type := POWER_BIN\<rparr>))
       = nat (65536 mod 65536)"
    by blast
  from T [THEN conjunct2] z(1)
  have b: "\<exists>status tr. main integer_part ([] @ Opt_c 65536 # [Opt_t 0]) counting_provider
                     = Some (status, tr)
         \<and> frame_lines tr = 0 \<and> get_next_calls tr = 0"
    by blast
  from U [THEN conjunct2] z(2)
  have c: "\<exists>status tr. main integer_part ([Opt_t 2, Opt_c 7] @ Opt_c 0 # [Opt_v]) counting_provider
                     = Some (status, tr)
         \<and> frame_lines tr = 0 \<and> get_next_calls tr = 0"
    by blast
  from p a b c z(1) show ?thesis by blast
qed

end
